theory Spec2Isabelle
  imports Main "HOL-Library.Sublist"
begin

section \<open>Tenant resolution middleware of use-next-ship\<close>

text \<open>
  The development embeds the request middleware of the repository (the file that defines
  \<^verbatim>\<open>normalizeAndValidateHost\<close>, \<^verbatim>\<open>isSlugValid\<close>, \<^verbatim>\<open>resolveTenantByHostname\<close> and
  \<^verbatim>\<open>middleware\<close>) and proves properties of it.

  Strings. A header value of the Fetch API is a byte string: every code unit of
  \<^verbatim>\<open>req.headers.get("host")\<close> is below 256. A JavaScript string is therefore modelled
  as a \<^typ>\<open>string\<close>, each \<^typ>\<open>char\<close> standing for the Latin-1 code unit of the same
  number, and \<^verbatim>\<open>length\<close> counts code units as \<^verbatim>\<open>.length\<close> does.

  Effects. The lookup over the network is the one effect that is modelled: the functions
  return the list of lookups they send next to their result. Console output and the
  measurement of the duration only report, and are left out.
\<close>

subsection \<open>String primitives of the platform\<close>

definition codeUnit :: "char \<Rightarrow> nat" where
  "codeUnit c = of_char c"

definition inRange :: "char \<Rightarrow> char \<Rightarrow> char \<Rightarrow> bool" where
  \<comment> \<open>membership in a regular-expression class range such as \<^verbatim>\<open>a-z\<close>\<close>
  "inRange lo hi c = (codeUnit lo \<le> codeUnit c \<and> codeUnit c \<le> codeUnit hi)"

definition lowerChar :: "char \<Rightarrow> char" where
  \<comment> \<open>the Unicode lower-case mapping on Latin-1: \<^verbatim>\<open>A-Z\<close> and the capitals
      U+00C0..U+00DE (without the multiplication sign U+00D7) move up by 32\<close>
  "lowerChar c =
     (if (65 \<le> codeUnit c \<and> codeUnit c \<le> 90)
         \<or> (192 \<le> codeUnit c \<and> codeUnit c \<le> 222 \<and> codeUnit c \<noteq> 215)
      then char_of (codeUnit c + 32) else c)"

definition toLowerCase :: "string \<Rightarrow> string" where
  "toLowerCase s = map lowerChar s"

definition isWhiteSpace :: "char \<Rightarrow> bool" where
  \<comment> \<open>white space and line terminators of ECMAScript that are Latin-1:
      TAB, LF, VT, FF, CR, SPACE, NBSP\<close>
  "isWhiteSpace c =
     (codeUnit c = 9 \<or> codeUnit c = 10 \<or> codeUnit c = 11 \<or> codeUnit c = 12
      \<or> codeUnit c = 13 \<or> codeUnit c = 32 \<or> codeUnit c = 160)"

definition trimStart :: "string \<Rightarrow> string" where
  "trimStart s = dropWhile isWhiteSpace s"

definition trimEnd :: "string \<Rightarrow> string" where
  "trimEnd s = rev (dropWhile isWhiteSpace (rev s))"

definition trim :: "string \<Rightarrow> string" where
  "trim s = trimEnd (trimStart s)"

definition startsWith :: "string \<Rightarrow> string \<Rightarrow> bool" where
  "startsWith s p = prefix p s"

definition endsWith :: "string \<Rightarrow> string \<Rightarrow> bool" where
  "endsWith s p = suffix p s"

definition includesStr :: "string \<Rightarrow> string \<Rightarrow> bool" where
  "includesStr s p = sublist p s"

definition splitFirst :: "char \<Rightarrow> string \<Rightarrow> string" where
  \<comment> \<open>\<^verbatim>\<open>s.split(sep)[0]\<close> for a one-character separator: the part before its first
      occurrence, the whole string when there is none\<close>
  "splitFirst sep s = takeWhile (\<lambda>c. c \<noteq> sep) s"

definition removeTrailingDot :: "string \<Rightarrow> string" where
  \<comment> \<open>\<^verbatim>\<open>s.replace(/\.$/, "")\<close>\<close>
  "removeTrailingDot s = (if endsWith s ''.'' then butlast s else s)"

definition canonicalize :: "char \<Rightarrow> nat" where
  \<comment> \<open>Canonicalize of ECMAScript for a regular expression with flag \<^verbatim>\<open>i\<close> (no
      \<^verbatim>\<open>u\<close>), on Latin-1, as a code unit: the upper-case mapping where it is a single
      code unit; U+00B5 and U+00FF leave Latin-1, U+00DF has no single-unit capital\<close>
  "canonicalize c =
     (if (97 \<le> codeUnit c \<and> codeUnit c \<le> 122)
         \<or> (224 \<le> codeUnit c \<and> codeUnit c \<le> 254 \<and> codeUnit c \<noteq> 247)
      then codeUnit c - 32
      else if codeUnit c = 181 then 924
      else if codeUnit c = 255 then 376
      else codeUnit c)"

definition testIgnoreCase :: "string \<Rightarrow> string \<Rightarrow> bool" where
  \<comment> \<open>\<^verbatim>\<open>/pat/i.test(s)\<close> for a pattern of literal characters\<close>
  "testIgnoreCase pat s = sublist (map canonicalize pat) (map canonicalize s)"

subsection \<open>Host validation\<close>

definition isHostChar :: "char \<Rightarrow> bool" where
  \<comment> \<open>the class \<^verbatim>\<open>[a-z0-9.-]\<close>\<close>
  "isHostChar c = (inRange CHR ''a'' CHR ''z'' c \<or> inRange CHR ''0'' CHR ''9'' c
                   \<or> c = CHR ''.'' \<or> c = CHR ''-'')"

definition isDigit :: "char \<Rightarrow> bool" where
  \<comment> \<open>the class \<^verbatim>\<open>\d\<close>\<close>
  "isDigit c = inRange CHR ''0'' CHR ''9'' c"

definition portSuffix :: "string \<Rightarrow> bool" where
  \<comment> \<open>the optional group \<^verbatim>\<open>(?::\d{1,5})?\<close> up to the end of the input\<close>
  "portSuffix r =
     (case r of [] \<Rightarrow> True
      | c # ds \<Rightarrow> c = CHR '':'' \<and> 1 \<le> length ds \<and> length ds \<le> 5 \<and> list_all isDigit ds)"

definition hostRegex :: "string \<Rightarrow> bool" where
  \<comment> \<open>\<^verbatim>\<open>/^[a-z0-9.-]+(?::\d{1,5})?$/.test(s)\<close>. The colon is outside the class, so
      only the longest run of class characters can be followed by the port or the end.\<close>
  "hostRegex s = (takeWhile isHostChar s \<noteq> [] \<and> portSuffix (dropWhile isHostChar s))"

definition maxLength :: nat where
  "maxLength = 253"

definition suspiciousPatterns :: "(string \<Rightarrow> bool) list" where
  "suspiciousPatterns =
     [\<lambda>s. includesStr s ''..'',
      \<lambda>s. list_ex (\<lambda>c. c = CHR ''<'' \<or> c = CHR ''>'') s,
      \<lambda>s. list_ex (\<lambda>c. c = CHR 0x27 \<or> c = CHR 0x22 \<or> c = CHR 0x60) s,
      \<lambda>s. list_ex (\<lambda>c. c = CHR 0x7B \<or> c = CHR 0x7D) s,
      testIgnoreCase ''javascript:'']"

definition normalizeAndValidateHost :: "string option \<Rightarrow> string option" where
  "normalizeAndValidateHost hostHeader =
     (case hostHeader of
        None \<Rightarrow> None
      | Some h \<Rightarrow>
          if h = [] then None
          else
            let raw = trim (toLowerCase h) in
            if \<not> hostRegex raw \<or> length raw > maxLength then None
            else if list_ex (\<lambda>pattern. pattern raw) suspiciousPatterns then None
            else
              let host = removeTrailingDot (splitFirst CHR '':'' raw) in
              Some (if startsWith host ''www.'' then drop 4 host else host))"

subsection \<open>Slug validation\<close>

definition RESERVED_SLUGS :: "string set" where
  "RESERVED_SLUGS =
     {''api'', ''_next'', ''static'', ''public'', ''admin'', ''healthz'',
      ''.well-known'', ''favicon.ico'', ''robots.txt'', ''sitemap.xml''}"

definition isSlugChar :: "char \<Rightarrow> bool" where
  \<comment> \<open>the class \<^verbatim>\<open>[a-z0-9-]\<close>\<close>
  "isSlugChar c = (inRange CHR ''a'' CHR ''z'' c \<or> inRange CHR ''0'' CHR ''9'' c \<or> c = CHR ''-'')"

definition slugRegex :: "string \<Rightarrow> bool" where
  \<comment> \<open>\<^verbatim>\<open>/^[a-z0-9-]{3,63}$/.test(s)\<close>\<close>
  "slugRegex s = (3 \<le> length s \<and> length s \<le> 63 \<and> list_all isSlugChar s)"

definition isSlugValid :: "string \<Rightarrow> bool" where
  "isSlugValid slug =
     (if slug \<in> RESERVED_SLUGS then False
      else if \<not> slugRegex slug then False
      else if startsWith slug ''-'' \<or> endsWith slug ''-'' \<or> includesStr slug ''--'' then False
      else True)"

subsection \<open>Configuration\<close>

text \<open>
  The module constants are computed once from the process environment; a variable is a
  string or absent, of Latin-1 characters like the header. \<^verbatim>\<open>FETCH_TIMEOUT\<close> only arms the timer that aborts the lookup: time is
  not modelled, an aborted lookup is the outcome \<open>AbortError\<close> of the call below.
  The root domain is the base URL without an \<^verbatim>\<open>http://\<close> or \<^verbatim>\<open>https://\<close> in front, up
  to its first colon, in lower case; nothing else of the host normalization is applied
  to it.
\<close>

record env =
  PORT_var :: "string option"
  NEXT_PUBLIC_BASE_URL :: "string option"
  INTERNAL_API_SECRET :: "string option"

definition PORT :: "env \<Rightarrow> string" where
  "PORT e = (case PORT_var e of None \<Rightarrow> ''3000'' | Some p \<Rightarrow> p)"

definition BASE_URL :: "env \<Rightarrow> string" where
  "BASE_URL e =
     (case NEXT_PUBLIC_BASE_URL e of None \<Rightarrow> ''http://localhost:'' @ PORT e | Some u \<Rightarrow> u)"

definition removeScheme :: "string \<Rightarrow> string" where
  \<comment> \<open>\<^verbatim>\<open>s.replace(/^https?:\/\//, "")\<close>\<close>
  "removeScheme s =
     (if startsWith s ''http://'' then drop 7 s
      else if startsWith s ''https://'' then drop 8 s
      else s)"

definition ROOT_DOMAIN :: "env \<Rightarrow> string" where
  "ROOT_DOMAIN e =
     toLowerCase (splitFirst CHR '':''
       (case NEXT_PUBLIC_BASE_URL e of
          None \<Rightarrow> ''localhost:'' @ PORT e
        | Some u \<Rightarrow> removeScheme u))"

subsection \<open>Tenant resolution\<close>

text \<open>
  The strings of the lookup's answer come out of JSON: they are sequences of UTF-16 code
  units and need not be byte strings. They are kept as lists of code units; \<open>byteString\<close>
  gives the byte string of one whose code units are all below 256, which is what the
  platform takes it for where a byte string is required.
\<close>

definition codeUnits :: "string \<Rightarrow> nat list" where
  "codeUnits s = map codeUnit s"

definition byteString :: "nat list \<Rightarrow> string option" where
  "byteString u = (if list_all (\<lambda>n. n < 256) u then Some (map char_of u) else None)"

record TenantInfo =
  tenantId :: "nat list"
  slug :: "nat list"
  customDomain :: "nat list option"

definition isSlugValidText :: "nat list \<Rightarrow> bool" where
  \<comment> \<open>\<^verbatim>\<open>isSlugValid\<close> on a string of arbitrary code units: a unit above 255 occurs in no
      reserved word and is outside the class of the regular expression\<close>
  "isSlugValidText u = (case byteString u of None \<Rightarrow> False | Some s \<Rightarrow> isSlugValid s)"

text \<open>
  The lookup URL is kept structured: the origin that the platform's URL parser gives for
  the base, the path, and the query parameters in order. Serialising it
  (\<^verbatim>\<open>url.toString()\<close>) is the platform's work.
\<close>

record URL =
  origin :: string
  path :: string
  searchParams :: "(string \<times> string) list"

fun setEntry :: "string \<Rightarrow> string \<Rightarrow> (string \<times> string) list \<Rightarrow> (string \<times> string) list" where
  \<comment> \<open>how \<^verbatim>\<open>set(name, value)\<close> of URLSearchParams and of Headers changes the list: the
      first entry of that name takes the value and the later ones go, a new name is
      appended\<close>
  "setEntry k v [] = [(k, v)]"
| "setEntry k v (p # ps) =
     (if fst p = k then (k, v) # filter (\<lambda>q. fst q \<noteq> k) ps else p # setEntry k v ps)"

datatype jsError = TypeError | SyntaxError | AbortError | OtherError | NotAnError

datatype jsonBody = Json TenantInfo | NotJson

datatype fetchOutcome = Rejects jsError | Responds nat jsonBody

record fetchCall =
  callUrl :: URL
  callMethod :: "string option"
  callHeaders :: "(string \<times> string) list"
  callCache :: string

text \<open>
  What the code calls and does not define: the URL parser (\<open>None\<close> is the TypeError of
  \<^verbatim>\<open>new URL(input, base)\<close> on a base that is no absolute URL, otherwise the origin of
  the base, against which an absolute path is resolved) and \<^verbatim>\<open>fetch\<close>, whose promise
  either rejects or resolves to a response with a status and a body. The code reads the
  body of an OK response as JSON and asserts the type \<^verbatim>\<open>TenantInfo\<close> for it: the body is
  a tenant record, or it is no JSON and reading it throws. The third field is the
  \<^verbatim>\<open>trailingSlash\<close> option of the framework's configuration, which is not part of the
  sources at hand.
\<close>

record platform =
  parseOrigin :: "string \<Rightarrow> string option"
  fetch :: "fetchCall \<Rightarrow> fetchOutcome"
  trailingSlashOption :: bool

definition newURL :: "platform \<Rightarrow> string \<Rightarrow> string \<Rightarrow> URL option" where
  \<comment> \<open>\<^verbatim>\<open>new URL(absolutePath, base)\<close>\<close>
  "newURL plat absolutePath base =
     (case parseOrigin plat base of
        None \<Rightarrow> None
      | Some orig \<Rightarrow> Some \<lparr>origin = orig, path = absolutePath, searchParams = []\<rparr>)"


definition sliceToNeg :: "string \<Rightarrow> nat \<Rightarrow> string" where
  \<comment> \<open>\<^verbatim>\<open>s.slice(0, -n)\<close>; \<^verbatim>\<open>-0\<close> is \<^verbatim>\<open>0\<close>, an empty slice\<close>
  "sliceToNeg s n = (if n = 0 then [] else take (length s - n) s)"

definition responseOk :: "nat \<Rightarrow> bool" where
  "responseOk status = (200 \<le> status \<and> status \<le> 299)"

definition subdomainSlug :: "env \<Rightarrow> string \<Rightarrow> URL \<Rightarrow> URL option" where
  \<comment> \<open>the block on subdomain-based resolution; \<open>None\<close> is its \<^verbatim>\<open>return null\<close>\<close>
  "subdomainSlug e hostname url =
     (if endsWith hostname (''.'' @ ROOT_DOMAIN e) then
        let slug = sliceToNeg hostname (length (''.'' @ ROOT_DOMAIN e)) in
        if slug \<noteq> [] \<and> isSlugValid slug
        then Some (url\<lparr>searchParams := setEntry ''slug'' slug (searchParams url)\<rparr>)
        else None
      else Some url)"

definition authHeaders :: "env \<Rightarrow> (string \<times> string) list" where
  "authHeaders e =
     (case INTERNAL_API_SECRET e of
        Some secret \<Rightarrow>
          if secret \<noteq> [] then [(''x-internal-secret'', secret)]
          else [(''x-internal-call'', ''tenant-resolver'')]
      | None \<Rightarrow> [(''x-internal-call'', ''tenant-resolver'')])"

definition tryBlock :: "fetchOutcome \<Rightarrow> jsError + TenantInfo option" where
  \<comment> \<open>the body of \<^verbatim>\<open>try\<close> from the awaited response on; \<open>Inl\<close> is what it throws\<close>
  "tryBlock out =
     (case out of
        Rejects err \<Rightarrow> Inl err
      | Responds status body \<Rightarrow>
          if responseOk status then
            (case body of
               NotJson \<Rightarrow> Inl SyntaxError
             | Json tenant \<Rightarrow>
                 if slug tenant \<noteq> [] \<and> \<not> isSlugValidText (slug tenant) then Inr None
                 else Inr (Some tenant))
          else Inr None)"

definition resolveTenantByHostname ::
  "env \<Rightarrow> platform \<Rightarrow> string \<Rightarrow> fetchCall list \<times> (jsError + TenantInfo option)" where
  \<comment> \<open>the lookups sent, and the value returned (\<open>Inr\<close>) or the exception that leaves the
      function (\<open>Inl\<close>)\<close>
  "resolveTenantByHostname e plat hostname =
     (case newURL plat ''/api/internal/tenant/resolve'' (BASE_URL e) of
        None \<Rightarrow> ([], Inl TypeError)
      | Some url0 \<Rightarrow>
          (case subdomainSlug e hostname url0 of
             None \<Rightarrow> ([], Inr None)
           | Some url1 \<Rightarrow>
               let url = url1\<lparr>searchParams := setEntry ''hostname'' hostname (searchParams url1)\<rparr>;
                   call = \<lparr>callUrl = url, callMethod = None, callHeaders = authHeaders e,
                           callCache = ''no-store''\<rparr>
               in ([call],
                   case tryBlock (fetch plat call) of
                     Inl err \<Rightarrow> Inr None
                   | Inr result \<Rightarrow> Inr result)))"

subsection \<open>The middleware\<close>

text \<open>
  A \<^verbatim>\<open>Headers\<close> object is a list of names in lower case with their values, which are
  byte strings. \<^verbatim>\<open>get\<close> compares names without regard to letter case and joins the
  values of a repeated name. \<^verbatim>\<open>set\<close> takes any string: it throws a TypeError for one that
  is no byte string, removes the HTTP white space (tab, line feed, carriage return, space)
  around the value, and throws a TypeError when a NUL, a line feed or a carriage return is
  left in it.
\<close>

definition asciiLower :: "string \<Rightarrow> string" where
  "asciiLower s =
     map (\<lambda>c. if 65 \<le> codeUnit c \<and> codeUnit c \<le> 90 then char_of (codeUnit c + 32) else c) s"

definition headersGet :: "(string \<times> string) list \<Rightarrow> string \<Rightarrow> string option" where
  "headersGet hs name =
     (case map snd (filter (\<lambda>p. fst p = asciiLower name) hs) of
        [] \<Rightarrow> None
      | v # vs \<Rightarrow> Some (foldl (\<lambda>joined w. joined @ '', '' @ w) v vs))"

definition isHttpWhitespace :: "char \<Rightarrow> bool" where
  "isHttpWhitespace c =
     (codeUnit c = 9 \<or> codeUnit c = 10 \<or> codeUnit c = 13 \<or> codeUnit c = 32)"

definition normalizeHeaderValue :: "string \<Rightarrow> string" where
  "normalizeHeaderValue v =
     rev (dropWhile isHttpWhitespace (rev (dropWhile isHttpWhitespace v)))"

definition isHeaderValue :: "string \<Rightarrow> bool" where
  "isHeaderValue v = list_all (\<lambda>c. codeUnit c \<noteq> 0 \<and> codeUnit c \<noteq> 10 \<and> codeUnit c \<noteq> 13) v"

definition headersSet ::
  "string \<Rightarrow> nat list \<Rightarrow> (string \<times> string) list \<Rightarrow> jsError + (string \<times> string) list" where
  "headersSet name val hs =
     (case byteString val of
        None \<Rightarrow> Inl TypeError
      | Some bytes \<Rightarrow>
          let v = normalizeHeaderValue bytes in
          if isHeaderValue v then Inr (setEntry (asciiLower name) v hs) else Inl TypeError)"

text \<open>
  \<^verbatim>\<open>req.nextUrl\<close> is the URL of the request as the framework parsed it (no base path and no
  locales are configured, and the request is no data request). Such an object keeps a
  flag beside its pathname: whether the pathname it was built from ended with a slash,
  and for the pathname \<^verbatim>\<open>/\<close> the \<^verbatim>\<open>trailingSlash\<close> option. Its \<^verbatim>\<open>href\<close>, which is what
  \<^verbatim>\<open>NextResponse.rewrite\<close> sends on, writes the pathname according to the flag;
  \<^verbatim>\<open>clone()\<close> builds a new object from the \<^verbatim>\<open>href\<close> of the old one.
\<close>

record NextURL =
  urlOrigin :: string
  pathname :: string
  search :: string

record NextRequest =
  headers :: "(string \<times> string) list"
  nextUrl :: NextURL

record clock =
  startTime :: nat
  timestamp :: nat

datatype NextResponse =
    Plain string nat
  | Next "(string \<times> string) list option"
  | Rewrite NextURL "(string \<times> string) list"

definition removeTrailingSlash :: "string \<Rightarrow> string" where
  \<comment> \<open>\<^verbatim>\<open>route.replace(/\/$/, "") || "/"\<close>\<close>
  "removeTrailingSlash route =
     (let r = (if endsWith route ''/'' then butlast route else route)
      in if r = [] then ''/'' else r)"

definition trailingSlashFlag :: "platform \<Rightarrow> string \<Rightarrow> bool" where
  \<comment> \<open>the flag that the constructor of a NextURL derives from the pathname\<close>
  "trailingSlashFlag plat p = (if p \<noteq> ''/'' then endsWith p ''/'' else trailingSlashOption plat)"

definition formatPathname :: "bool \<Rightarrow> string \<Rightarrow> string" where
  \<comment> \<open>the pathname as \<^verbatim>\<open>href\<close> writes it for a given flag\<close>
  "formatPathname flag p =
     (let p1 = (if \<not> flag then removeTrailingSlash p else p) in
      if flag then
        (if \<not> endsWith p1 ''/'' then (if startsWith p1 ''/'' then p1 @ ''/'' else p1) else p1)
      else removeTrailingSlash p1)"

definition cloneFlag :: "platform \<Rightarrow> NextURL \<Rightarrow> bool" where
  \<comment> \<open>the flag of \<^verbatim>\<open>url.clone()\<close> for a URL that the framework built\<close>
  "cloneFlag plat url =
     trailingSlashFlag plat
       (formatPathname (trailingSlashFlag plat (pathname url)) (pathname url))"

definition href :: "bool \<Rightarrow> NextURL \<Rightarrow> NextURL" where
  \<comment> \<open>the URL that \<^verbatim>\<open>href\<close> writes, for an object with this flag\<close>
  "href flag url = url\<lparr>pathname := formatPathname flag (pathname url)\<rparr>"

fun toString :: "nat \<Rightarrow> string" where
  "toString n =
     (if n < 10 then [char_of (48 + n)] else toString (n div 10) @ [char_of (48 + n mod 10)])"

declare toString.simps [simp del]

definition tenantDomain :: "string \<Rightarrow> TenantInfo \<Rightarrow> nat list" where
  \<comment> \<open>\<^verbatim>\<open>tenant.customDomain ?? originalHost\<close>\<close>
  "tenantDomain originalHost tenant =
     (case customDomain tenant of None \<Rightarrow> codeUnits originalHost | Some d \<Rightarrow> d)"

definition tenantHeaders ::
  "clock \<Rightarrow> string \<Rightarrow> TenantInfo \<Rightarrow> (string \<times> string) list
     \<Rightarrow> jsError + (string \<times> string) list" where
  \<comment> \<open>the five \<^verbatim>\<open>requestHeaders.set\<close> in their order; the first that throws ends them\<close>
  "tenantHeaders clk originalHost tenant hs =
     (case headersSet ''x-tenant-id'' (tenantId tenant) hs of
        Inl err \<Rightarrow> Inl err
      | Inr h1 \<Rightarrow>
     (case headersSet ''x-tenant-slug'' (slug tenant) h1 of
        Inl err \<Rightarrow> Inl err
      | Inr h2 \<Rightarrow>
     (case headersSet ''x-tenant-domain'' (tenantDomain originalHost tenant) h2 of
        Inl err \<Rightarrow> Inl err
      | Inr h3 \<Rightarrow>
     (case headersSet ''x-tenant-timestamp'' (codeUnits (toString (timestamp clk))) h3 of
        Inl err \<Rightarrow> Inl err
      | Inr h4 \<Rightarrow>
          headersSet ''x-middleware-start'' (codeUnits (toString (startTime clk))) h4))))"

definition middleware ::
  "env \<Rightarrow> platform \<Rightarrow> clock \<Rightarrow> NextRequest \<Rightarrow> fetchCall list \<times> (jsError + NextResponse)" where
  \<comment> \<open>the lookups sent, and the response returned (\<open>Inr\<close>) or the exception that leaves
      the function (\<open>Inl\<close>). Once the slug header is set the slug is a byte string, so
      the second TypeError below stands for no further exception.\<close>
  "middleware e plat clk req =
     (case normalizeAndValidateHost (headersGet (headers req) ''host'') of
        None \<Rightarrow> ([], Inr (Plain ''Bad Request'' 400))
      | Some originalHost \<Rightarrow>
          if originalHost = [] then ([], Inr (Plain ''Bad Request'' 400))
          else if originalHost = ROOT_DOMAIN e then ([], Inr (Next None))
          else
            (case resolveTenantByHostname e plat originalHost of
               (calls, Inl err) \<Rightarrow> (calls, Inl err)
             | (calls, Inr None) \<Rightarrow> (calls, Inr (Plain ''Not Found'' 404))
             | (calls, Inr (Some tenant)) \<Rightarrow>
                 (case tenantHeaders clk originalHost tenant (headers req) of
                    Inl err \<Rightarrow> (calls, Inl err)
                  | Inr requestHeaders \<Rightarrow>
                 (case byteString (slug tenant) of
                    None \<Rightarrow> (calls, Inl TypeError)
                  | Some slugText \<Rightarrow>
                      let p = pathname (nextUrl req) in
                      if startsWith p (''/s/'' @ slugText) \<or> startsWith p ''/api''
                         \<or> startsWith p ''/healthz''
                      then (calls, Inr (Next (Some requestHeaders)))
                      else
                        (calls,
                         Inr (Rewrite
                               (href (cloneFlag plat (nextUrl req))
                                  ((nextUrl req)\<lparr>pathname := ''/s/'' @ slugText @ p,
                                                  search := search (nextUrl req)\<rparr>))
                               requestHeaders))))))"

subsection \<open>The specification's wording, and auxiliary notions of the proofs\<close>

text \<open>The reserved words and the slug rules as the specification lists them.\<close>

definition reservedWords :: "string set" where
  "reservedWords =
     {''api'', ''_next'', ''static'', ''public'', ''admin'', ''healthz'',
      ''.well-known'', ''favicon.ico'', ''robots.txt'', ''sitemap.xml''}"

definition slugRules :: "string \<Rightarrow> bool" where
  "slugRules s =
     (3 \<le> length s \<and> length s \<le> 63
      \<and> set s \<subseteq> set ''abcdefghijklmnopqrstuvwxyz0123456789-''
      \<and> \<not> prefix ''-'' s \<and> \<not> suffix ''-'' s \<and> \<not> sublist ''--'' s
      \<and> s \<notin> reservedWords)"

text \<open>
  A string \<open>w\<close> is \<open>pat\<close> in some letter case when it differs from \<open>pat\<close> only by
  capitals in the place of small letters.
\<close>

definition anyCase :: "string \<Rightarrow> string \<Rightarrow> bool" where
  "anyCase pat w =
     list_all2 (\<lambda>c p. c = p \<or> (inRange CHR ''a'' CHR ''z'' p \<and> codeUnit c + 32 = codeUnit p)) w pat"

text \<open>
  A lower-cased, trimmed header is accepted when it passes the format check, the length
  check and the two suspicious patterns that the format still allows; \<open>hostOf\<close> is the
  local \<^verbatim>\<open>host\<close> on an accepted header, \<open>stripWww\<close> the final conditional.
\<close>

definition accepted :: "string \<Rightarrow> bool" where
  "accepted raw = (hostRegex raw \<and> length raw \<le> 253 \<and> \<not> sublist ''..'' raw
                   \<and> \<not> testIgnoreCase ''javascript:'' raw)"

definition hostOf :: "string \<Rightarrow> string" where
  "hostOf raw = removeTrailingDot (takeWhile isHostChar raw)"

definition stripWww :: "string \<Rightarrow> string" where
  "stripWww host = (if prefix ''www.'' host then drop 4 host else host)"

text \<open>A string that \<^verbatim>\<open>Headers.set\<close> takes as a value without throwing.\<close>

definition headerValueOk :: "nat list \<Rightarrow> bool" where
  "headerValueOk val =
     (case byteString val of
        None \<Rightarrow> False
      | Some bytes \<Rightarrow> isHeaderValue (normalizeHeaderValue bytes))"

text \<open>
  A deployment at \<^verbatim>\<open>https://example.com\<close> and one at \<^verbatim>\<open>https://www.example.com\<close>,
  used to run the definitions; a deployment whose base URL lacks the scheme, and one
  whose base URL is the scheme alone.
\<close>

definition schemelessEnv :: env where
  "schemelessEnv = \<lparr>PORT_var = None, NEXT_PUBLIC_BASE_URL = Some ''example.com'',
                     INTERNAL_API_SECRET = None\<rparr>"

definition emptyRootEnv :: env where
  "emptyRootEnv = \<lparr>PORT_var = None, NEXT_PUBLIC_BASE_URL = Some ''https://'',
                    INTERNAL_API_SECRET = None\<rparr>"

definition exampleEnv :: env where
  "exampleEnv = \<lparr>PORT_var = None, NEXT_PUBLIC_BASE_URL = Some ''https://example.com'',
                  INTERNAL_API_SECRET = None\<rparr>"

definition wwwEnv :: env where
  "wwwEnv = \<lparr>PORT_var = None, NEXT_PUBLIC_BASE_URL = Some ''https://www.example.com'',
              INTERNAL_API_SECRET = None\<rparr>"

definition examplePlatform :: "fetchOutcome \<Rightarrow> platform" where
  "examplePlatform out =
     \<lparr>parseOrigin =
        (\<lambda>b. if b = ''https://example.com'' \<or> b = ''https://www.example.com'' then Some b
             else None),
      fetch = (\<lambda>c. out),
      trailingSlashOption = False\<rparr>"

definition exampleRequest :: "string \<Rightarrow> string \<Rightarrow> NextRequest" where
  "exampleRequest host p =
     \<lparr>headers = [(''host'', host)],
      nextUrl = \<lparr>urlOrigin = ''https://'' @ host, pathname = p, search = ''?tab=1''\<rparr>\<rparr>"

definition exampleClock :: clock where
  "exampleClock = \<lparr>startTime = 1700000000000, timestamp = 1700000000002\<rparr>"

text \<open>
  Tenants: one as the store keeps them, one whose id has a line feed inside, and one
  with an empty slug.
\<close>

definition lineFeedTenant :: TenantInfo where
  "lineFeedTenant =
     \<lparr>tenantId = codeUnits ''org'' @ [10] @ codeUnits ''1'', slug = codeUnits ''acme'',
      customDomain = None\<rparr>"


definition acme :: TenantInfo where
  "acme = \<lparr>tenantId = codeUnits ''org_1'', slug = codeUnits ''acme'', customDomain = None\<rparr>"

section \<open>Properties\<close>

subsection \<open>Characters and the two regular expressions\<close>

lemma isSlugChar_alphabet: "isSlugChar c = (c \<in> set ''abcdefghijklmnopqrstuvwxyz0123456789-'')"
  by (cases c) (simp add: isSlugChar_def inRange_def codeUnit_def)

lemma isHostChar_alphabet: "isHostChar c = (c \<in> set ''abcdefghijklmnopqrstuvwxyz0123456789.-'')"
  by (cases c) (simp add: isHostChar_def inRange_def codeUnit_def)

lemma lowerChar_hostChar: "isHostChar c \<Longrightarrow> lowerChar c = c"
  by (auto simp: isHostChar_alphabet lowerChar_def codeUnit_def)

lemma hostChar_not_colon: "isHostChar c \<Longrightarrow> c \<noteq> CHR '':''"
  by (auto simp: isHostChar_alphabet)

text \<open>
  The host format accepts exactly the strings that split into a non-empty run of class
  characters and an optional port, which is what the regular expression matches.
\<close>

lemma hostRegex_iff_match:
  "hostRegex s \<longleftrightarrow>
     (\<exists>h p. s = h @ p \<and> h \<noteq> [] \<and> list_all isHostChar h
        \<and> (p = [] \<or> (\<exists>ds. p = CHR '':'' # ds \<and> 1 \<le> length ds \<and> length ds \<le> 5
                          \<and> list_all isDigit ds)))"
proof
  assume r: "hostRegex s"
  let ?h = "takeWhile isHostChar s" and ?p = "dropWhile isHostChar s"
  have "s = ?h @ ?p" by simp
  moreover from r have "?h \<noteq> []" by (simp add: hostRegex_def)
  moreover have "list_all isHostChar ?h"
    by (auto simp: list_all_iff dest: set_takeWhileD)
  moreover from r have "?p = [] \<or> (\<exists>ds. ?p = CHR '':'' # ds \<and> 1 \<le> length ds \<and> length ds \<le> 5
                          \<and> list_all isDigit ds)"
    by (cases ?p) (simp_all add: hostRegex_def portSuffix_def)
  ultimately show "\<exists>h p. s = h @ p \<and> h \<noteq> [] \<and> list_all isHostChar h
        \<and> (p = [] \<or> (\<exists>ds. p = CHR '':'' # ds \<and> 1 \<le> length ds \<and> length ds \<le> 5
                          \<and> list_all isDigit ds))"
    by blast
next
  assume "\<exists>h p. s = h @ p \<and> h \<noteq> [] \<and> list_all isHostChar h
        \<and> (p = [] \<or> (\<exists>ds. p = CHR '':'' # ds \<and> 1 \<le> length ds \<and> length ds \<le> 5
                          \<and> list_all isDigit ds))"
  then obtain h p where s: "s = h @ p" and h: "h \<noteq> []" "list_all isHostChar h"
    and p: "p = [] \<or> (\<exists>ds. p = CHR '':'' # ds \<and> 1 \<le> length ds \<and> length ds \<le> 5
                          \<and> list_all isDigit ds)"
    by blast
  from p have tp: "takeWhile isHostChar p = []" and dp: "dropWhile isHostChar p = p"
    using hostChar_not_colon by (cases p; auto)+
  from h(2) have all: "\<forall>c\<in>set h. isHostChar c" by (simp add: list_all_iff)
  have "takeWhile isHostChar s = h"
    unfolding s using all tp by (simp add: takeWhile_append2 del: takeWhile_append)
  moreover have "dropWhile isHostChar s = p"
    unfolding s using all dp by (simp add: dropWhile_append2 del: dropWhile_append)
  moreover from p have "portSuffix p" by (auto simp: portSuffix_def)
  ultimately show "hostRegex s" using h(1) by (simp add: hostRegex_def)
qed

lemma hostRegex_split:
  assumes "hostRegex raw"
  shows "splitFirst CHR '':'' raw = takeWhile isHostChar raw"
proof -
  have raw: "raw = takeWhile isHostChar raw @ dropWhile isHostChar raw" by simp
  have nc: "\<forall>c\<in>set (takeWhile isHostChar raw). c \<noteq> CHR '':''"
    using hostChar_not_colon by (auto dest: set_takeWhileD)
  from assms have ps: "portSuffix (dropWhile isHostChar raw)" by (simp add: hostRegex_def)
  show ?thesis
  proof (cases "dropWhile isHostChar raw")
    case Nil
    then have all: "\<forall>c\<in>set raw. isHostChar c" by (simp add: dropWhile_eq_Nil_conv)
    then have "\<forall>c\<in>set raw. c \<noteq> CHR '':''" using hostChar_not_colon by blast
    with all show ?thesis
      unfolding splitFirst_def by (simp add: takeWhile_eq_all_conv[THEN iffD2])
  next
    case (Cons d ds)
    with ps have "d = CHR '':''" by (simp add: portSuffix_def)
    with Cons raw have r: "raw = takeWhile isHostChar raw @ CHR '':'' # ds" by simp
    have "takeWhile (\<lambda>c. c \<noteq> CHR '':'') (takeWhile isHostChar raw @ CHR '':'' # ds) = takeWhile isHostChar raw"
      using nc by (simp add: takeWhile_append2 del: takeWhile_append)
    with r show ?thesis by (simp add: splitFirst_def)
  qed
qed

lemma portSuffix_chars:
  assumes "portSuffix r" "c \<in> set r"
  shows "isHostChar c \<or> c = CHR '':''"
proof (cases r)
  case Nil
  with assms show ?thesis by simp
next
  case (Cons d ds)
  with assms have d: "d = CHR '':''" and ds: "list_all isDigit ds"
    by (simp_all add: portSuffix_def)
  from assms Cons have "c = d \<or> c \<in> set ds" by auto
  then show ?thesis
  proof
    assume "c = d" with d show ?thesis by simp
  next
    assume "c \<in> set ds"
    with ds have "isDigit c" by (simp add: list_all_iff)
    then show ?thesis by (simp add: isDigit_def isHostChar_def)
  qed
qed

lemma hostRegex_chars:
  assumes "hostRegex raw" "c \<in> set raw"
  shows "isHostChar c \<or> c = CHR '':''"
proof -
  have "set raw = set (takeWhile isHostChar raw) \<union> set (dropWhile isHostChar raw)"
    by (metis set_append takeWhile_dropWhile_id)
  with assms(2) consider "c \<in> set (takeWhile isHostChar raw)" | "c \<in> set (dropWhile isHostChar raw)"
    by blast
  then show ?thesis
  proof cases
    case 1
    then show ?thesis by (auto dest: set_takeWhileD)
  next
    case 2
    moreover from assms(1) have "portSuffix (dropWhile isHostChar raw)"
      by (simp add: hostRegex_def)
    ultimately show ?thesis using portSuffix_chars by blast
  qed
qed

lemma hostChar_or_colon_plain:
  "isHostChar c \<or> c = CHR '':'' \<Longrightarrow>
     c \<noteq> CHR ''<'' \<and> c \<noteq> CHR ''>'' \<and> c \<noteq> CHR 0x27 \<and> c \<noteq> CHR 0x22 \<and> c \<noteq> CHR 0x60
     \<and> c \<noteq> CHR 0x7B \<and> c \<noteq> CHR 0x7D"
  by (auto simp: isHostChar_alphabet)

lemma suspicious_hostRegex:
  assumes "hostRegex raw"
  shows "list_ex (\<lambda>pattern. pattern raw) suspiciousPatterns
           = (sublist ''..'' raw \<or> testIgnoreCase ''javascript:'' raw)"
proof -
  have plain: "\<And>c. c \<in> set raw \<Longrightarrow>
     c \<noteq> CHR ''<'' \<and> c \<noteq> CHR ''>'' \<and> c \<noteq> CHR 0x27 \<and> c \<noteq> CHR 0x22 \<and> c \<noteq> CHR 0x60
     \<and> c \<noteq> CHR 0x7B \<and> c \<noteq> CHR 0x7D"
    using hostRegex_chars [OF assms] hostChar_or_colon_plain by blast
  have a: "\<not> list_ex (\<lambda>c. c = CHR ''<'' \<or> c = CHR ''>'') raw"
    unfolding list_ex_iff using plain by blast
  have b: "\<not> list_ex (\<lambda>c. c = CHR 0x27 \<or> c = CHR 0x22 \<or> c = CHR 0x60) raw"
    unfolding list_ex_iff using plain by blast
  have c: "\<not> list_ex (\<lambda>c. c = CHR 0x7B \<or> c = CHR 0x7D) raw"
    unfolding list_ex_iff using plain by blast
  show ?thesis
    using a b c by (simp add: suspiciousPatterns_def includesStr_def)
qed

subsection \<open>What the host validator returns\<close>

lemma normalize_eq:
  "normalizeAndValidateHost (Some h) =
     (if h \<noteq> [] \<and> accepted (trim (toLowerCase h))
      then Some (stripWww (hostOf (trim (toLowerCase h)))) else None)"
proof (cases "hostRegex (trim (toLowerCase h))")
  case True
  then show ?thesis
    by (simp add: normalizeAndValidateHost_def Let_def suspicious_hostRegex hostRegex_split
        accepted_def hostOf_def stripWww_def maxLength_def startsWith_def)
next
  case False
  then show ?thesis
    by (simp add: normalizeAndValidateHost_def Let_def accepted_def)
qed

lemma normalize_None [simp]: "normalizeAndValidateHost None = None"
  by (simp add: normalizeAndValidateHost_def)

lemma normalize_SomeD:
  assumes "normalizeAndValidateHost hh = Some s"
  obtains h where "hh = Some h" "h \<noteq> []" "accepted (trim (toLowerCase h))"
    "s = stripWww (hostOf (trim (toLowerCase h)))"
proof (cases hh)
  case None
  with assms show ?thesis by simp
next
  case (Some h)
  with assms that show ?thesis
    by (simp add: normalize_eq split: if_splits)
qed

lemma set_removeTrailingDot: "set (removeTrailingDot x) \<subseteq> set x"
  by (auto simp: removeTrailingDot_def dest: in_set_butlastD)

lemma set_stripWww: "set (stripWww x) \<subseteq> set x"
  by (auto simp: stripWww_def dest: in_set_dropD)

lemma hostChars_normal: "c \<in> set (stripWww (hostOf raw)) \<Longrightarrow> isHostChar c"
proof -
  assume "c \<in> set (stripWww (hostOf raw))"
  then have "c \<in> set (takeWhile isHostChar raw)"
    using set_stripWww set_removeTrailingDot unfolding hostOf_def by blast
  then show ?thesis by (auto dest: set_takeWhileD)
qed

lemma length_removeTrailingDot: "length (removeTrailingDot x) \<le> length x"
  by (simp add: removeTrailingDot_def)

lemma length_normal: "length (stripWww (hostOf raw)) \<le> length raw"
proof -
  have "length (stripWww (hostOf raw)) \<le> length (hostOf raw)"
    by (simp add: stripWww_def)
  also have "\<dots> \<le> length (takeWhile isHostChar raw)"
    unfolding hostOf_def by (rule length_removeTrailingDot)
  also have "\<dots> \<le> length raw"
    by (rule length_takeWhile_le)
  finally show ?thesis .
qed

lemma suffix_dot_butlast:
  assumes "suffix ''.'' x" "suffix ''.'' (butlast x)"
  shows "suffix ''..'' x"
proof -
  from assms(2) obtain u where u: "butlast x = u @ ''.''" by (auto simp: suffix_def)
  from assms(1) obtain v where v: "x = v @ ''.''" by (auto simp: suffix_def)
  then have "butlast x = v" by simp
  with u v have "x = u @ ''..''" by simp
  then show ?thesis by (simp add: suffix_def)
qed

lemma no_trailing_dot_host:
  assumes "\<not> sublist ''..'' raw"
  shows "\<not> suffix ''.'' (hostOf raw)"
proof
  assume s: "suffix ''.'' (hostOf raw)"
  let ?t = "takeWhile isHostChar raw"
  have nodd: "\<not> sublist ''..'' ?t"
    using assms sublist_takeWhile sublist_order.order_trans by blast
  show False
  proof (cases "suffix ''.'' ?t")
    case True
    with s have "suffix ''.'' (butlast ?t)"
      by (simp add: hostOf_def removeTrailingDot_def endsWith_def)
    with True have "suffix ''..'' ?t" by (rule suffix_dot_butlast)
    with nodd show False by (blast intro: suffix_imp_sublist)
  next
    case False
    with s show False by (simp add: hostOf_def removeTrailingDot_def endsWith_def)
  qed
qed

lemma no_trailing_dot_normal:
  assumes "\<not> sublist ''..'' raw"
  shows "\<not> suffix ''.'' (stripWww (hostOf raw))"
proof
  assume "suffix ''.'' (stripWww (hostOf raw))"
  moreover have "suffix (stripWww (hostOf raw)) (hostOf raw)"
    by (simp add: stripWww_def suffix_drop)
  ultimately have "suffix ''.'' (hostOf raw)"
    using suffix_order.order_trans by blast
  with no_trailing_dot_host [OF assms] show False ..
qed

lemma toLowerCase_hostChars: "\<forall>c\<in>set s. isHostChar c \<Longrightarrow> toLowerCase s = s"
  unfolding toLowerCase_def by (simp add: map_idI lowerChar_hostChar)

text \<open>
  Claim C9. Whenever \<^verbatim>\<open>normalizeAndValidateHost\<close> returns a string, that string has no
  colon, no upper-case letter (lower-casing leaves it unchanged), only characters of
  \<^verbatim>\<open>[a-z0-9.-]\<close>, no trailing dot and at most 253 characters. The string can be empty,
  as for the header \<^verbatim>\<open>"."\<close>, and the middleware answers 400 to an empty result.
\<close>

theorem normalized_host_shape:
  "(normalizeAndValidateHost hostHeader = Some s \<longrightarrow>
      CHR '':'' \<notin> set s \<and> toLowerCase s = s
      \<and> set s \<subseteq> set ''abcdefghijklmnopqrstuvwxyz0123456789.-''
      \<and> \<not> endsWith s ''.'' \<and> length s \<le> 253)
   \<and> normalizeAndValidateHost (Some ''.'') = Some []
   \<and> (normalizeAndValidateHost (headersGet (headers req) ''host'') = Some [] \<longrightarrow>
        middleware e plat clk req = ([], Inr (Plain ''Bad Request'' 400)))"
proof (intro conjI impI)
  assume n: "normalizeAndValidateHost hostHeader = Some s"
  then obtain h where h: "accepted (trim (toLowerCase h))"
    and s: "s = stripWww (hostOf (trim (toLowerCase h)))"
    by (rule normalize_SomeD)
  have hc: "\<forall>c\<in>set s. isHostChar c"
    unfolding s using hostChars_normal by blast
  then show "CHR '':'' \<notin> set s" using hostChar_not_colon by blast
  from hc show "toLowerCase s = s" by (rule toLowerCase_hostChars)
  from hc show "set s \<subseteq> set ''abcdefghijklmnopqrstuvwxyz0123456789.-''"
    using isHostChar_alphabet by blast
  from h show "\<not> endsWith s ''.''"
    unfolding s endsWith_def by (intro no_trailing_dot_normal) (simp add: accepted_def)
  have "length s \<le> length (trim (toLowerCase h))"
    unfolding s by (rule length_normal)
  with h show "length s \<le> 253" by (simp add: accepted_def)
next
  show "normalizeAndValidateHost (Some ''.'') = Some []"
    by code_simp
next
  assume "normalizeAndValidateHost (headersGet (headers req) ''host'') = Some []"
  then show "middleware e plat clk req = ([], Inr (Plain ''Bad Request'' 400))"
    by (simp add: middleware_def)
qed

theorem normalized_host_shape_witness:
  "normalizeAndValidateHost (Some ''WWW.Example.COM:443'') = Some ''example.com''
   \<and> CHR '':'' \<notin> set ''example.com'' \<and> toLowerCase ''example.com'' = ''example.com''
   \<and> \<not> endsWith ''example.com'' ''.'' \<and> length ''example.com'' \<le> 253
   \<and> normalizeAndValidateHost (headersGet (headers (exampleRequest ''.'' ''/'')) ''host'') = Some []
   \<and> middleware exampleEnv (examplePlatform (Rejects OtherError)) exampleClock
         (exampleRequest ''.'' ''/'') = ([], Inr (Plain ''Bad Request'' 400))"
proof -
  have a: "normalizeAndValidateHost (Some ''WWW.Example.COM:443'') = Some ''example.com''"
    by code_simp
  have b: "normalizeAndValidateHost (headersGet (headers (exampleRequest ''.'' ''/'')) ''host'')
             = Some []"
    by code_simp
  from normalized_host_shape [of "Some ''WWW.Example.COM:443''" "''example.com''"
      "exampleRequest ''.'' ''/''" exampleEnv "examplePlatform (Rejects OtherError)" exampleClock]
    a b
  show ?thesis by simp
qed

subsection \<open>Lower-casing, trimming and the \<^verbatim>\<open>www.\<close> prefix\<close>

lemma codeUnit_char_of: "n < 256 \<Longrightarrow> codeUnit (char_of n) = n"
  by (simp add: codeUnit_def)

lemma isWhiteSpace_lowerChar: "isWhiteSpace (lowerChar c) = isWhiteSpace c"
proof (cases "(65 \<le> codeUnit c \<and> codeUnit c \<le> 90)
              \<or> (192 \<le> codeUnit c \<and> codeUnit c \<le> 222 \<and> codeUnit c \<noteq> 215)")
  case True
  then have "codeUnit c + 32 < 256" by auto
  then have "codeUnit (lowerChar c) = codeUnit c + 32"
    using True by (simp add: lowerChar_def codeUnit_char_of)
  with True show ?thesis by (auto simp: isWhiteSpace_def)
next
  case False
  then have "lowerChar c = c" unfolding lowerChar_def by (rule if_not_P)
  then show ?thesis by simp
qed

lemma trimStart_toLowerCase: "trimStart (toLowerCase s) = toLowerCase (trimStart s)"
  unfolding trimStart_def toLowerCase_def
  by (simp add: dropWhile_map comp_def isWhiteSpace_lowerChar)

lemma trimEnd_toLowerCase: "trimEnd (toLowerCase s) = toLowerCase (trimEnd s)"
  unfolding trimEnd_def toLowerCase_def
  by (simp add: rev_map dropWhile_map comp_def isWhiteSpace_lowerChar)

lemma trim_toLowerCase: "trim (toLowerCase s) = toLowerCase (trim s)"
  by (simp add: trim_def trimStart_toLowerCase trimEnd_toLowerCase)

lemma length_toLowerCase [simp]: "length (toLowerCase s) = length s"
  by (simp add: toLowerCase_def)

lemma toLowerCase_append [simp]: "toLowerCase (a @ b) = toLowerCase a @ toLowerCase b"
  by (simp add: toLowerCase_def)

lemma trimStart_id: "s \<noteq> [] \<Longrightarrow> \<not> isWhiteSpace (hd s) \<Longrightarrow> trimStart s = s"
  by (cases s) (simp_all add: trimStart_def)

lemma trimEnd_append:
  assumes "x \<noteq> []" "\<not> isWhiteSpace (hd x)"
  shows "trimEnd (a @ x) = a @ trimEnd x"
proof -
  have "hd x \<in> set (rev x)" using assms(1) by simp
  then have "dropWhile isWhiteSpace (rev x @ rev a) = dropWhile isWhiteSpace (rev x) @ rev a"
    using assms(2) by (rule dropWhile_append1)
  then show ?thesis by (simp add: trimEnd_def)
qed

lemma trimEnd_id: "s \<noteq> [] \<Longrightarrow> \<not> isWhiteSpace (last s) \<Longrightarrow> trimEnd s = s"
  by (cases s rule: rev_cases) (simp_all add: trimEnd_def)

lemma trimEnd_Nil_iff:
  assumes "x \<noteq> []" "\<not> isWhiteSpace (hd x)"
  shows "trimEnd x \<noteq> []" "hd (trimEnd x) = hd x"
proof -
  obtain c cs where x: "x = c # cs" using assms(1) by (cases x) auto
  have "trimEnd ([c] @ cs) = [c] @ trimEnd cs" if "cs \<noteq> []" "\<not> isWhiteSpace (hd cs)"
    using that by (rule trimEnd_append)
  have c: "\<not> isWhiteSpace c" using assms(2) x by simp
  have "dropWhile isWhiteSpace (rev cs @ [c]) = dropWhile isWhiteSpace (rev cs) @ [c]"
    using c by (induction cs rule: rev_induct) (auto simp: dropWhile_append)
  then have "trimEnd x = c # trimEnd cs"
    by (simp add: x trimEnd_def)
  then show "trimEnd x \<noteq> []" "hd (trimEnd x) = hd x" by (simp_all add: x)
qed

lemma trim_prefixed:
  assumes "a \<noteq> []" "\<not> isWhiteSpace (hd a)" "x \<noteq> []" "\<not> isWhiteSpace (hd x)"
  shows "trim (a @ x) = a @ trim x"
proof -
  have "trimStart (a @ x) = a @ x"
    using assms(1,2) by (intro trimStart_id) simp_all
  moreover have "trimStart x = x" using assms(3,4) by (rule trimStart_id)
  ultimately show ?thesis
    using trimEnd_append [OF assms(3,4)] by (simp add: trim_def)
qed

lemma sublist_pair_append:
  assumes "sublist [x, y] (a @ b)" "\<not> sublist [x, y] a" "\<not> sublist [x, y] b"
  shows "a \<noteq> [] \<and> b \<noteq> [] \<and> last a = x \<and> hd b = y"
proof -
  from assms obtain u v where uv: "[x, y] = u @ v" and su: "suffix u a" and pv: "prefix v b"
    by (auto simp: sublist_append)
  from uv have "u = [] \<and> v = [x, y] \<or> u = [x] \<and> v = [y] \<or> u = [x, y] \<and> v = []"
    by (auto simp: Cons_eq_append_conv)
  then show ?thesis
  proof (elim disjE conjE)
    assume "u = []" "v = [x, y]"
    with pv assms(3) show ?thesis by (auto dest: prefix_imp_sublist)
  next
    assume "u = [x, y]" "v = []"
    with su assms(2) show ?thesis by (auto dest: suffix_imp_sublist)
  next
    assume "u = [x]" "v = [y]"
    with su pv show ?thesis by (auto simp: suffix_def prefix_def)
  qed
qed

lemma sublist_append_fresh_hd:
  assumes "sublist p (a @ b)" "p \<noteq> []" "hd p \<notin> set a"
  shows "sublist p b"
proof -
  from assms(1) consider "sublist p a" | "sublist p b"
    | u v where "p = u @ v" "suffix u a" "prefix v b"
    by (auto simp: sublist_append)
  then show ?thesis
  proof cases
    case 1
    then have "set p \<subseteq> set a" by (rule set_mono_sublist)
    with assms(2,3) show ?thesis by (cases p) auto
  next
    case 2
    then show ?thesis .
  next
    case 3
    show ?thesis
    proof (cases u)
      case Nil
      with 3 show ?thesis by (auto dest: prefix_imp_sublist)
    next
      case (Cons c cs)
      with 3(1) have "hd p = c" by simp
      moreover from 3(2) Cons have "c \<in> set a" by (auto simp: suffix_def)
      ultimately show ?thesis using assms(3) by simp
    qed
  qed
qed

lemma suffix_single: "suffix [c] xs = (xs \<noteq> [] \<and> last xs = c)"
  by (cases xs rule: rev_cases) (auto simp: suffix_def)

lemma removeTrailingDot_append:
  "t \<noteq> [] \<Longrightarrow> removeTrailingDot (a @ t) = a @ removeTrailingDot t"
  by (simp add: removeTrailingDot_def endsWith_def suffix_single butlast_append)

lemma hostChars_www: "\<forall>c\<in>set ''www.''. isHostChar c"
  by (simp add: isHostChar_alphabet)

lemma accepted_nonempty: "accepted raw \<Longrightarrow> takeWhile isHostChar raw \<noteq> []"
  by (simp add: accepted_def hostRegex_def)

lemma accepted_www:
  assumes "accepted raw" "length raw \<le> 249" "hd raw \<noteq> CHR ''.''"
  shows "accepted (''www.'' @ raw)"
proof -
  have tw: "takeWhile isHostChar (''www.'' @ raw) = ''www.'' @ takeWhile isHostChar raw"
    using hostChars_www by (simp only: takeWhile_append2)
  have dw: "dropWhile isHostChar (''www.'' @ raw) = dropWhile isHostChar raw"
    using hostChars_www by (simp only: dropWhile_append2)
  from assms(1) have "takeWhile isHostChar raw \<noteq> []" "portSuffix (dropWhile isHostChar raw)"
    by (simp_all add: accepted_def hostRegex_def)
  then have re: "hostRegex (''www.'' @ raw)"
    unfolding hostRegex_def tw dw by simp
  from assms(2) have len: "length (''www.'' @ raw) \<le> 253" by simp
  have dots: "\<not> sublist ''..'' (''www.'' @ raw)"
  proof
    assume a: "sublist ''..'' (''www.'' @ raw)"
    have b: "\<not> sublist ''..'' ''www.''" by (simp add: sublist_Cons_right)
    from assms(1) have c: "\<not> sublist ''..'' raw" by (simp add: accepted_def)
    from sublist_pair_append [OF a b c] have "hd raw = CHR ''.''" by (rule conjunct2 [THEN conjunct2, THEN conjunct2])
    with assms(3) show False ..
  qed
  have js: "\<not> testIgnoreCase ''javascript:'' (''www.'' @ raw)"
  proof
    assume "testIgnoreCase ''javascript:'' (''www.'' @ raw)"
    then have "sublist (map canonicalize ''javascript:'')
                 (map canonicalize ''www.'' @ map canonicalize raw)"
      by (simp add: testIgnoreCase_def)
    moreover have "map canonicalize ''javascript:'' \<noteq> []" by simp
    moreover have "hd (map canonicalize ''javascript:'') \<notin> set (map canonicalize ''www.'')"
      by (simp add: canonicalize_def codeUnit_def)
    ultimately have "sublist (map canonicalize ''javascript:'') (map canonicalize raw)"
      by (rule sublist_append_fresh_hd)
    with assms(1) show False by (simp add: accepted_def testIgnoreCase_def)
  qed
  from re len dots js show ?thesis by (simp add: accepted_def)
qed

lemma hostOf_www:
  assumes "accepted raw"
  shows "hostOf (''www.'' @ raw) = ''www.'' @ hostOf raw"
proof -
  have tw: "takeWhile isHostChar (''www.'' @ raw) = ''www.'' @ takeWhile isHostChar raw"
    using hostChars_www by (simp only: takeWhile_append2)
  have "hostOf (''www.'' @ raw) = removeTrailingDot (''www.'' @ takeWhile isHostChar raw)"
    unfolding hostOf_def tw ..
  also have "\<dots> = ''www.'' @ removeTrailingDot (takeWhile isHostChar raw)"
    by (rule removeTrailingDot_append [OF accepted_nonempty [OF assms]])
  also have "\<dots> = ''www.'' @ hostOf raw"
    unfolding hostOf_def ..
  finally show ?thesis .
qed

lemma stripWww_www: "stripWww (''www.'' @ x) = x"
  by (simp add: stripWww_def)

lemma lowerChar_dot_iff: "lowerChar c = CHR ''.'' \<longleftrightarrow> c = CHR ''.''"
proof
  assume l: "lowerChar c = CHR ''.''"
  show "c = CHR ''.''"
  proof (rule ccontr)
    assume n: "c \<noteq> CHR ''.''"
    have cap: "(65 \<le> codeUnit c \<and> codeUnit c \<le> 90)
              \<or> (192 \<le> codeUnit c \<and> codeUnit c \<le> 222 \<and> codeUnit c \<noteq> 215)"
    proof (rule ccontr)
      assume "\<not> ?thesis"
      then have "lowerChar c = c" unfolding lowerChar_def by (rule if_not_P)
      with l n show False by simp
    qed
    then have "codeUnit c + 32 < 256" by auto
    then have "codeUnit (lowerChar c) = codeUnit c + 32"
      using cap by (simp add: lowerChar_def codeUnit_char_of)
    with l cap show False by (auto simp: codeUnit_def)
  qed
next
  assume "c = CHR ''.''"
  then show "lowerChar c = CHR ''.''" by (simp add: lowerChar_def codeUnit_def)
qed

text \<open>
  Claim C5, as the code has it. Putting \<^verbatim>\<open>www.\<close>, in any letter case, in front of a
  header \<open>H\<close> that the validator accepts does not change the result, provided \<open>H\<close>
  does not begin with white space or with a dot, has at most 249 characters once trimmed,
  and its host part (lower-cased, without port and trailing dot) does not itself begin
  with \<^verbatim>\<open>www.\<close>. The validator removes one \<^verbatim>\<open>www.\<close> only, and it checks the
  length, the format and the double dot on the whole header.
\<close>

theorem www_prefix_same_result:
  assumes "normalizeAndValidateHost (Some H) \<noteq> None"
    and "toLowerCase W = ''www.''"
    and "trimStart H = H"
    and "\<not> startsWith H ''.''"
    and "length (trim H) \<le> 249"
    and "\<not> startsWith (removeTrailingDot (splitFirst CHR '':'' (trim (toLowerCase H)))) ''www.''"
  shows "normalizeAndValidateHost (Some (W @ H)) = normalizeAndValidateHost (Some H)"
proof -
  let ?L = "toLowerCase H"
  let ?raw = "trim ?L"
  from assms(1) have H: "H \<noteq> []" and acc: "accepted ?raw"
    by (simp_all add: normalize_eq split: if_splits)
  have nw: "\<not> isWhiteSpace (hd H)"
    using assms(3) H by (simp add: trimStart_def dropWhile_eq_self_iff)
  have nd: "hd H \<noteq> CHR ''.''"
    using assms(4) H by (cases H) (simp_all add: startsWith_def)
  have L: "?L \<noteq> []" "\<not> isWhiteSpace (hd ?L)"
    using H nw by (simp_all add: toLowerCase_def hd_map isWhiteSpace_lowerChar)
  have w: "''www.'' \<noteq> []" "\<not> isWhiteSpace (hd ''www.'')"
    by (simp_all add: isWhiteSpace_def codeUnit_def)
  have "trim (''www.'' @ ?L) = ''www.'' @ ?raw"
    by (rule trim_prefixed [OF w L])
  then have raw': "trim (toLowerCase (W @ H)) = ''www.'' @ ?raw"
    unfolding toLowerCase_append assms(2) .
  have "trimStart ?L = ?L" using L by (rule trimStart_id)
  then have "hd ?raw = hd ?L"
    using trimEnd_Nil_iff(2) [OF L] by (simp add: trim_def)
  also have "\<dots> = lowerChar (hd H)" using H by (simp add: toLowerCase_def hd_map)
  finally have hd: "hd ?raw \<noteq> CHR ''.''" using nd by (simp add: lowerChar_dot_iff)
  have len: "length ?raw \<le> 249" using assms(5) by (simp add: trim_toLowerCase)
  have acc': "accepted (''www.'' @ ?raw)" using acc len hd by (rule accepted_www)
  have "hostOf ?raw = removeTrailingDot (splitFirst CHR '':'' ?raw)"
    using acc by (simp add: hostOf_def hostRegex_split accepted_def)
  with assms(6) have "stripWww (hostOf ?raw) = hostOf ?raw"
    by (simp add: stripWww_def startsWith_def)
  then have n1: "normalizeAndValidateHost (Some H) = Some (hostOf ?raw)"
    using H acc by (simp add: normalize_eq)
  have "normalizeAndValidateHost (Some (W @ H))
          = (if W @ H \<noteq> [] \<and> accepted (''www.'' @ ?raw)
             then Some (stripWww (hostOf (''www.'' @ ?raw))) else None)"
    unfolding normalize_eq [of "W @ H"] raw' ..
  also have "\<dots> = Some (stripWww (hostOf (''www.'' @ ?raw)))"
    using H acc' by (simp only: append_is_Nil_conv simp_thms if_True)
  also have "\<dots> = Some (hostOf ?raw)"
    unfolding hostOf_www [OF acc] stripWww_www ..
  finally show ?thesis using n1 by simp
qed

theorem www_prefix_same_result_witness:
  "normalizeAndValidateHost (Some ''Example.COM:8080'') \<noteq> None
   \<and> toLowerCase ''WwW.'' = ''www.''
   \<and> trimStart ''Example.COM:8080'' = ''Example.COM:8080''
   \<and> \<not> startsWith ''Example.COM:8080'' ''.''
   \<and> length (trim ''Example.COM:8080'') \<le> 249
   \<and> \<not> startsWith (removeTrailingDot (splitFirst CHR '':'' (trim (toLowerCase ''Example.COM:8080''))))
          ''www.''
   \<and> normalizeAndValidateHost (Some (''WwW.'' @ ''Example.COM:8080''))
       = normalizeAndValidateHost (Some ''Example.COM:8080'')"
proof -
  have 1: "normalizeAndValidateHost (Some ''Example.COM:8080'') \<noteq> None" by code_simp
  have 2: "toLowerCase ''WwW.'' = ''www.''" by code_simp
  have 3: "trimStart ''Example.COM:8080'' = ''Example.COM:8080''" by code_simp
  have 4: "\<not> startsWith ''Example.COM:8080'' ''.''" by code_simp
  have 5: "length (trim ''Example.COM:8080'') \<le> 249" by code_simp
  have 6: "\<not> startsWith
      (removeTrailingDot (splitFirst CHR '':'' (trim (toLowerCase ''Example.COM:8080'')))) ''www.''"
    by code_simp
  from www_prefix_same_result [OF 1 2 3 4 5 6] 1 2 3 4 5 6 show ?thesis by blast
qed

theorem www_prefix_counterexample:
  "normalizeAndValidateHost (Some ''www.example.com'') = Some ''example.com''
   \<and> normalizeAndValidateHost (Some (''WWW.'' @ ''www.example.com'')) = Some ''www.example.com''
   \<and> normalizeAndValidateHost (Some ''.example.com'') = Some ''.example.com''
   \<and> normalizeAndValidateHost (Some (''WWW.'' @ ''.example.com'')) = None
   \<and> normalizeAndValidateHost (Some '' example.com'') = Some ''example.com''
   \<and> normalizeAndValidateHost (Some (''WWW.'' @ '' example.com'')) = None
   \<and> normalizeAndValidateHost (Some (replicate 250 CHR ''a'')) = Some (replicate 250 CHR ''a'')
   \<and> normalizeAndValidateHost (Some (''WWW.'' @ replicate 250 CHR ''a'')) = None"
proof -
  have short:
    "normalizeAndValidateHost (Some ''www.example.com'') = Some ''example.com''
     \<and> normalizeAndValidateHost (Some (''WWW.'' @ ''www.example.com'')) = Some ''www.example.com''
     \<and> normalizeAndValidateHost (Some ''.example.com'') = Some ''.example.com''
     \<and> normalizeAndValidateHost (Some (''WWW.'' @ ''.example.com'')) = None
     \<and> normalizeAndValidateHost (Some '' example.com'') = Some ''example.com''
     \<and> normalizeAndValidateHost (Some (''WWW.'' @ '' example.com'')) = None"
    by code_simp
  have long:
    "normalizeAndValidateHost (Some (replicate 250 CHR ''a'')) = Some (replicate 250 CHR ''a'')
     \<and> normalizeAndValidateHost (Some (''WWW.'' @ replicate 250 CHR ''a'')) = None"
    by code_simp
  from short long show ?thesis by blast
qed

subsection \<open>Suspicious headers\<close>

lemma sublist_dropWhile_keep:
  assumes "sublist w s" "w \<noteq> []" "\<not> P (hd w)"
  shows "sublist w (dropWhile P s)"
proof -
  from assms(1) obtain ps ss where s: "s = ps @ w @ ss" by (auto simp: sublist_def)
  from assms(2,3) have w: "dropWhile P (w @ ss) = w @ ss"
    by (cases w) auto
  show ?thesis
  proof (cases "\<forall>x\<in>set ps. P x")
    case True
    then have "dropWhile P s = w @ ss" using w by (simp add: s dropWhile_append)
    then show ?thesis by simp
  next
    case False
    then have "dropWhile P s = dropWhile P ps @ w @ ss" by (auto simp: s dropWhile_append)
    then show ?thesis by simp
  qed
qed

lemma sublist_trim_keep:
  assumes "sublist w s" "w \<noteq> []" "\<not> isWhiteSpace (hd w)" "\<not> isWhiteSpace (last w)"
  shows "sublist w (trim s)"
proof -
  have 1: "sublist w (trimStart s)"
    unfolding trimStart_def using assms(1-3) by (rule sublist_dropWhile_keep)
  have "sublist (rev w) (dropWhile isWhiteSpace (rev (trimStart s)))"
  proof (rule sublist_dropWhile_keep)
    show "sublist (rev w) (rev (trimStart s))" using 1 by simp
    show "rev w \<noteq> []" using assms(2) by simp
    show "\<not> isWhiteSpace (hd (rev w))" using assms(2,4) by (simp add: hd_rev)
  qed
  then show ?thesis
    unfolding trim_def trimEnd_def by (simp add: sublist_rev_right)
qed

lemma mem_trim_keep:
  assumes "c \<in> set s" "\<not> isWhiteSpace c"
  shows "c \<in> set (trim s)"
proof -
  from assms(1) have "sublist [c] s"
    by (metis append_Cons append_Nil split_list sublist_appendI)
  then have "sublist [c] (trim s)"
    using assms(2) by (intro sublist_trim_keep) simp_all
  then show ?thesis using set_mono_sublist by fastforce
qed

lemma lowerChar_literal:
  "lowerChar CHR ''.'' = CHR ''.''" "lowerChar CHR ''<'' = CHR ''<''" "lowerChar CHR ''>'' = CHR ''>''"
  "lowerChar CHR 0x27 = CHR 0x27" "lowerChar CHR 0x22 = CHR 0x22" "lowerChar CHR 0x60 = CHR 0x60"
  "lowerChar CHR 0x7B = CHR 0x7B" "lowerChar CHR 0x7D = CHR 0x7D" "lowerChar CHR '':'' = CHR '':''"
  by (simp_all add: lowerChar_def codeUnit_def)

lemma not_white_literal:
  "\<not> isWhiteSpace CHR ''.''" "\<not> isWhiteSpace CHR ''<''" "\<not> isWhiteSpace CHR ''>''"
  "\<not> isWhiteSpace CHR 0x27" "\<not> isWhiteSpace CHR 0x22" "\<not> isWhiteSpace CHR 0x60"
  "\<not> isWhiteSpace CHR 0x7B" "\<not> isWhiteSpace CHR 0x7D" "\<not> isWhiteSpace CHR '':''"
  "\<not> isWhiteSpace CHR ''j''"
  by (simp_all add: isWhiteSpace_def codeUnit_def)

lemma lowerChar_capital:
  assumes "inRange CHR ''a'' CHR ''z'' p" "codeUnit c + 32 = codeUnit p"
  shows "lowerChar c = p"
proof -
  from assms have r: "65 \<le> codeUnit c" "codeUnit c \<le> 90"
    by (simp_all add: inRange_def codeUnit_def)
  then have "lowerChar c = char_of (codeUnit c + 32)" by (simp add: lowerChar_def)
  also have "\<dots> = char_of (codeUnit p)" using assms(2) by simp
  also have "\<dots> = p" by (simp add: codeUnit_def)
  finally show ?thesis .
qed

lemma lowerChar_small: "inRange CHR ''a'' CHR ''z'' p \<Longrightarrow> lowerChar p = p"
  by (simp add: lowerChar_def inRange_def codeUnit_def)

lemma anyCase_lower:
  assumes "anyCase pat w" "list_all (\<lambda>p. lowerChar p = p) pat"
  shows "toLowerCase w = pat"
proof -
  have "list_all2 (\<lambda>c p. c = p \<or> (inRange CHR ''a'' CHR ''z'' p \<and> codeUnit c + 32 = codeUnit p)) w pat"
    using assms(1) by (simp add: anyCase_def)
  then show ?thesis using assms(2)
  proof (induction rule: list_all2_induct)
    case Nil
    then show ?case by (simp add: toLowerCase_def)
  next
    case (Cons c cs p ps)
    from Cons.hyps(1) Cons.prems have "lowerChar c = p"
      using lowerChar_capital by auto
    moreover from Cons have "toLowerCase cs = ps" by simp
    ultimately show ?case by (simp add: toLowerCase_def)
  qed
qed

lemma anyCase_javascript:
  assumes "anyCase ''javascript:'' w"
  shows "toLowerCase w = ''javascript:''"
  using assms by (rule anyCase_lower) (simp add: lowerChar_def codeUnit_def)

lemma rejected_char:
  assumes "c \<in> set h" "lowerChar c = c" "\<not> isWhiteSpace c" "\<not> isHostChar c" "c \<noteq> CHR '':''"
  shows "normalizeAndValidateHost (Some h) = None"
proof -
  from assms(1,2) have "c \<in> set (toLowerCase h)"
    unfolding toLowerCase_def by force
  then have "c \<in> set (trim (toLowerCase h))"
    using assms(3) by (rule mem_trim_keep)
  then have "\<not> hostRegex (trim (toLowerCase h))"
    using hostRegex_chars assms(4,5) by blast
  then show ?thesis by (simp add: normalize_eq accepted_def)
qed

lemma rejected_sublist:
  assumes "sublist w (toLowerCase h)" "w \<noteq> []" "\<not> isWhiteSpace (hd w)" "\<not> isWhiteSpace (last w)"
    and "w = ''..'' \<or> w = ''javascript:''"
  shows "normalizeAndValidateHost (Some h) = None"
proof -
  have sub: "sublist w (trim (toLowerCase h))"
    using assms(1-4) by (rule sublist_trim_keep)
  from assms(5) have "\<not> accepted (trim (toLowerCase h))"
  proof
    assume "w = ''..''"
    with sub show ?thesis by (simp add: accepted_def)
  next
    assume "w = ''javascript:''"
    with sub have "testIgnoreCase ''javascript:'' (trim (toLowerCase h))"
      unfolding testIgnoreCase_def by (intro map_mono_sublist) simp
    then show ?thesis by (simp add: accepted_def)
  qed
  then show ?thesis by (simp add: normalize_eq)
qed

text \<open>
  Claim C2. A host header that contains \<^verbatim>\<open>..\<close>, an angle bracket, a quote character
  (single, double, backtick), a curly brace, or \<^verbatim>\<open>javascript:\<close> in any letter case is
  rejected: the validator returns null.
\<close>

theorem suspicious_host_rejected:
  assumes "sublist ''..'' h \<or> CHR ''<'' \<in> set h \<or> CHR ''>'' \<in> set h
           \<or> CHR 0x27 \<in> set h \<or> CHR 0x22 \<in> set h \<or> CHR 0x60 \<in> set h
           \<or> CHR 0x7B \<in> set h \<or> CHR 0x7D \<in> set h
           \<or> (sublist w h \<and> anyCase ''javascript:'' w)"
  shows "normalizeAndValidateHost (Some h) = None"
proof -
  have ch: "normalizeAndValidateHost (Some h) = None"
    if "c \<in> set h" and "c \<in> set [CHR ''<'', CHR ''>'', CHR 0x27, CHR 0x22, CHR 0x60, CHR 0x7B, CHR 0x7D]"
    for c
  proof (rule rejected_char [OF that(1)])
    from that(2) show "lowerChar c = c" by (auto simp: lowerChar_literal)
    from that(2) show "\<not> isWhiteSpace c" by (auto simp: not_white_literal)
    from that(2) show "\<not> isHostChar c" by (auto simp: isHostChar_alphabet)
    from that(2) show "c \<noteq> CHR '':''" by auto
  qed
  have dots: "normalizeAndValidateHost (Some h) = None" if "sublist ''..'' h"
  proof (rule rejected_sublist [where w = "''..''"])
    from that have "sublist (map lowerChar ''..'') (map lowerChar h)" by (rule map_mono_sublist)
    then show "sublist ''..'' (toLowerCase h)" by (simp add: toLowerCase_def lowerChar_literal)
  qed (simp_all add: not_white_literal)
  have js: "normalizeAndValidateHost (Some h) = None"
    if "sublist w h" and "anyCase ''javascript:'' w"
  proof (rule rejected_sublist [where w = "''javascript:''"])
    from that(1) have "sublist (toLowerCase w) (toLowerCase h)"
      unfolding toLowerCase_def by (rule map_mono_sublist)
    with that(2) show "sublist ''javascript:'' (toLowerCase h)"
      by (simp add: anyCase_javascript)
  qed (simp_all add: not_white_literal)
  from assms ch dots js show ?thesis by auto
qed

theorem suspicious_host_rejected_witness:
  "sublist ''JavaScript:'' ''evil.JavaScript:80'' \<and> anyCase ''javascript:'' ''JavaScript:''
   \<and> normalizeAndValidateHost (Some ''evil.JavaScript:80'') = None
   \<and> sublist ''..'' ''a..example.com''
   \<and> normalizeAndValidateHost (Some ''a..example.com'') = None"
proof -
  have a: "sublist ''JavaScript:'' ''evil.JavaScript:80''"
    by (simp add: sublist_Cons_right)
  have b: "anyCase ''javascript:'' ''JavaScript:''"
    by (simp add: anyCase_def inRange_def codeUnit_def)
  have c: "sublist ''..'' ''a..example.com''"
    by (simp add: sublist_Cons_right)
  from suspicious_host_rejected [of "''evil.JavaScript:80''" "''JavaScript:''"]
    suspicious_host_rejected [of "''a..example.com''" "[]"] a b c
  show ?thesis by simp
qed

subsection \<open>Slug validity\<close>

lemma member_RESERVED_SLUGS: "(s \<in> RESERVED_SLUGS) = (s \<in> reservedWords)"
  unfolding RESERVED_SLUGS_def reservedWords_def by simp

lemma slugRegex_alphabet:
  "slugRegex s =
     (3 \<le> length s \<and> length s \<le> 63 \<and> set s \<subseteq> set ''abcdefghijklmnopqrstuvwxyz0123456789-'')"
proof -
  have "list_all isSlugChar s = (set s \<subseteq> set ''abcdefghijklmnopqrstuvwxyz0123456789-'')"
    unfolding list_all_iff using isSlugChar_alphabet by blast
  then show ?thesis by (simp add: slugRegex_def)
qed

lemma isSlugValid_Nil [simp]: "\<not> isSlugValid []"
  by (simp add: isSlugValid_def slugRegex_def)

text \<open>
  Claim C6. \<^verbatim>\<open>isSlugValid\<close> is false on every reserved word, and it is true exactly on
  the strings that satisfy all the slug rules: 3 to 63 characters of \<^verbatim>\<open>[a-z0-9-]\<close>, no
  leading hyphen, no trailing hyphen, no double hyphen, not a reserved word.
\<close>

theorem isSlugValid_rules:
  "(s \<in> reservedWords \<longrightarrow> \<not> isSlugValid s) \<and> (isSlugValid s \<longleftrightarrow> slugRules s)"
  unfolding isSlugValid_def member_RESERVED_SLUGS slugRegex_alphabet slugRules_def
    startsWith_def endsWith_def includesStr_def
  by auto

theorem isSlugValid_rules_witness:
  "''api'' \<in> reservedWords \<and> \<not> isSlugValid ''api''
   \<and> slugRules ''acme'' \<and> isSlugValid ''acme''
   \<and> \<not> slugRules ''ab'' \<and> \<not> isSlugValid ''ab''"
  using isSlugValid_rules [of "''api''"] isSlugValid_rules [of "''acme''"]
    isSlugValid_rules [of "''ab''"]
  by (simp add: reservedWords_def slugRules_def suffix_to_prefix sublist_Cons_right)

subsection \<open>The resolver\<close>

lemma sliceToNeg_suffix: "sliceToNeg (p @ ''.'' @ r) (length (''.'' @ r)) = p"
  by (simp add: sliceToNeg_def)

text \<open>
  Claim C3, as the code has it. For a hostname \<open>p.ROOT_DOMAIN\<close> whose prefix \<open>p\<close> is no
  valid slug, the resolver sends no lookup. When the configured base URL parses, the
  resolver returns null, and the middleware answers 404 to a request with that hostname.
  The URL of the lookup is built from the base URL before the slug is looked at and
  outside the \<^verbatim>\<open>try\<close> block: with a base URL that does not parse, such as
  \<^verbatim>\<open>example.com\<close> without a scheme, the resolver and the middleware throw instead.
\<close>

theorem invalid_slug_not_looked_up:
  assumes "\<not> isSlugValid p"
  shows "fst (resolveTenantByHostname e plat (p @ ''.'' @ ROOT_DOMAIN e)) = []
    \<and> (parseOrigin plat (BASE_URL e) \<noteq> None \<longrightarrow>
          resolveTenantByHostname e plat (p @ ''.'' @ ROOT_DOMAIN e) = ([], Inr None)
          \<and> (normalizeAndValidateHost (headersGet (headers req) ''host'')
                = Some (p @ ''.'' @ ROOT_DOMAIN e)
              \<longrightarrow> middleware e plat clk req = ([], Inr (Plain ''Not Found'' 404))))"
proof -
  have sub: "subdomainSlug e (p @ ''.'' @ ROOT_DOMAIN e) url = None" for url
    using assms sliceToNeg_suffix [of p "ROOT_DOMAIN e"]
    by (simp add: subdomainSlug_def endsWith_def suffix_def Let_def)
  have f: "fst (resolveTenantByHostname e plat (p @ ''.'' @ ROOT_DOMAIN e)) = []"
    using sub by (auto simp: resolveTenantByHostname_def newURL_def split: option.splits)
  have r: "resolveTenantByHostname e plat (p @ ''.'' @ ROOT_DOMAIN e) = ([], Inr None)"
    if "parseOrigin plat (BASE_URL e) \<noteq> None"
    using that sub by (auto simp: resolveTenantByHostname_def newURL_def)
  have ne: "p @ ''.'' @ ROOT_DOMAIN e \<noteq> ROOT_DOMAIN e"
  proof
    assume "p @ ''.'' @ ROOT_DOMAIN e = ROOT_DOMAIN e"
    then have "length (p @ ''.'' @ ROOT_DOMAIN e) = length (ROOT_DOMAIN e)" by simp
    then show False by simp
  qed
  show ?thesis using f r ne by (simp add: middleware_def)
qed

theorem invalid_slug_not_looked_up_witness:
  "\<not> isSlugValid ''ab''
   \<and> parseOrigin (examplePlatform (Responds 200 (Json acme))) (BASE_URL exampleEnv) \<noteq> None
   \<and> resolveTenantByHostname exampleEnv (examplePlatform (Responds 200 (Json acme)))
        (''ab'' @ ''.'' @ ROOT_DOMAIN exampleEnv) = ([], Inr None)
   \<and> normalizeAndValidateHost
        (headersGet (headers (exampleRequest ''ab.example.com'' ''/dashboard'')) ''host'')
        = Some (''ab'' @ ''.'' @ ROOT_DOMAIN exampleEnv)
   \<and> middleware exampleEnv (examplePlatform (Responds 200 (Json acme))) exampleClock
        (exampleRequest ''ab.example.com'' ''/dashboard'') = ([], Inr (Plain ''Not Found'' 404))"
proof -
  let ?plat = "examplePlatform (Responds 200 (Json acme))"
  let ?req = "exampleRequest ''ab.example.com'' ''/dashboard''"
  have a: "parseOrigin ?plat (BASE_URL exampleEnv) \<noteq> None"
    by (simp add: examplePlatform_def exampleEnv_def BASE_URL_def)
  have b: "\<not> isSlugValid ''ab''"
    by (simp add: isSlugValid_def slugRegex_def)
  have n: "normalizeAndValidateHost (headersGet (headers ?req) ''host'')
             = Some (''ab'' @ ''.'' @ ROOT_DOMAIN exampleEnv)"
    by code_simp
  from invalid_slug_not_looked_up [OF b, where req = ?req and clk = exampleClock
      and e = exampleEnv and plat = ?plat] a b n
  show ?thesis by simp
qed

theorem invalid_slug_counterexample:
  "\<not> isSlugValid ''ab''
   \<and> ROOT_DOMAIN schemelessEnv = ''example.com''
   \<and> resolveTenantByHostname schemelessEnv (examplePlatform (Responds 200 (Json acme)))
        ''ab.example.com'' = ([], Inl TypeError)
   \<and> normalizeAndValidateHost
        (headersGet (headers (exampleRequest ''ab.example.com'' ''/dashboard'')) ''host'')
        = Some ''ab.example.com''
   \<and> middleware schemelessEnv (examplePlatform (Responds 200 (Json acme))) exampleClock
        (exampleRequest ''ab.example.com'' ''/dashboard'') = ([], Inl TypeError)"
proof -
  let ?plat = "examplePlatform (Responds 200 (Json acme))"
  let ?req = "exampleRequest ''ab.example.com'' ''/dashboard''"
  have b: "\<not> isSlugValid ''ab''"
    by (simp add: isSlugValid_def slugRegex_def)
  have d: "ROOT_DOMAIN schemelessEnv = ''example.com''"
    by code_simp
  have r: "resolveTenantByHostname schemelessEnv ?plat ''ab.example.com'' = ([], Inl TypeError)"
    by code_simp
  have n: "normalizeAndValidateHost (headersGet (headers ?req) ''host'') = Some ''ab.example.com''"
    by code_simp
  have m: "middleware schemelessEnv ?plat exampleClock ?req = ([], Inl TypeError)"
    by (simp add: middleware_def n d r)
  from b d r n m show ?thesis by simp
qed








subsection \<open>The middleware\<close>

text \<open>
  Claim C7, as the code has it. A request whose normalized hostname is not empty and is
  the root domain is passed on as it is: the answer is \<^verbatim>\<open>NextResponse.next()\<close> without
  request headers, there is no rewrite, and no lookup is sent, whatever the platform
  would answer. An empty normalized hostname is answered 400 before it is compared with
  the root domain, also when the root domain is empty.
\<close>

theorem root_domain_passes_through:
  assumes "normalizeAndValidateHost (headersGet (headers req) ''host'') = Some (ROOT_DOMAIN e)"
    and "ROOT_DOMAIN e \<noteq> []"
  shows "middleware e plat clk req = ([], Inr (Next None))"
  using assms by (simp add: middleware_def)

theorem root_domain_passes_through_witness:
  "normalizeAndValidateHost (headersGet (headers (exampleRequest ''example.com'' ''/pricing'')) ''host'')
     = Some (ROOT_DOMAIN exampleEnv)
   \<and> ROOT_DOMAIN exampleEnv \<noteq> []
   \<and> middleware exampleEnv (examplePlatform (Rejects OtherError)) exampleClock
        (exampleRequest ''example.com'' ''/pricing'') = ([], Inr (Next None))"
proof -
  have n: "normalizeAndValidateHost
      (headersGet (headers (exampleRequest ''example.com'' ''/pricing'')) ''host'')
     = Some (ROOT_DOMAIN exampleEnv)"
    by code_simp
  have r: "ROOT_DOMAIN exampleEnv \<noteq> []"
    by code_simp
  from root_domain_passes_through [OF n r] n r show ?thesis by simp
qed

theorem root_domain_counterexample:
  "ROOT_DOMAIN emptyRootEnv = []
   \<and> normalizeAndValidateHost (headersGet (headers (exampleRequest ''.'' ''/pricing'')) ''host'')
       = Some (ROOT_DOMAIN emptyRootEnv)
   \<and> middleware emptyRootEnv (examplePlatform (Rejects OtherError)) exampleClock
        (exampleRequest ''.'' ''/pricing'') = ([], Inr (Plain ''Bad Request'' 400))"
proof -
  have d: "ROOT_DOMAIN emptyRootEnv = []"
    by code_simp
  have n: "normalizeAndValidateHost (headersGet (headers (exampleRequest ''.'' ''/pricing'')) ''host'')
       = Some []"
    by code_simp
  have m: "middleware emptyRootEnv (examplePlatform (Rejects OtherError)) exampleClock
        (exampleRequest ''.'' ''/pricing'') = ([], Inr (Plain ''Bad Request'' 400))"
    by (simp add: middleware_def n)
  from d n m show ?thesis by simp
qed

subsection \<open>Tenant headers and the rewrite\<close>

lemma byteString_codeUnits [simp]: "byteString (codeUnits s) = Some s"
proof -
  have "list_all (\<lambda>n. n < 256) (map codeUnit s)"
    by (simp add: list_all_iff codeUnit_def)
  moreover have "map char_of (map codeUnit s) = s"
    by (simp add: codeUnit_def comp_def)
  ultimately show ?thesis by (simp add: byteString_def codeUnits_def)
qed

lemma dropWhile_none: "\<forall>x\<in>set xs. \<not> P x \<Longrightarrow> dropWhile P xs = xs"
  by (cases xs) simp_all

lemma normalizeHeaderValue_id:
  assumes "\<forall>c\<in>set v. \<not> isHttpWhitespace c"
  shows "normalizeHeaderValue v = v"
proof -
  from assms have "dropWhile isHttpWhitespace v = v"
    by (rule dropWhile_none)
  moreover from assms have "dropWhile isHttpWhitespace (rev v) = rev v"
    by (intro dropWhile_none) simp
  ultimately show ?thesis by (simp add: normalizeHeaderValue_def)
qed

lemma isHeaderValue_plain:
  assumes "\<forall>c\<in>set v. \<not> isHttpWhitespace c \<and> codeUnit c \<noteq> 0"
  shows "isHeaderValue v"
  using assms by (auto simp: isHeaderValue_def list_all_iff isHttpWhitespace_def)

lemma headersSet_plain:
  assumes "\<forall>c\<in>set v. \<not> isHttpWhitespace c \<and> codeUnit c \<noteq> 0"
  shows "headersSet name (codeUnits v) hs = Inr (setEntry (asciiLower name) v hs)"
  using assms normalizeHeaderValue_id [of v] isHeaderValue_plain [of v]
  by (simp add: headersSet_def)

lemma hostChar_plain: "isHostChar c \<Longrightarrow> \<not> isHttpWhitespace c \<and> codeUnit c \<noteq> 0"
  by (auto simp: isHostChar_alphabet isHttpWhitespace_def codeUnit_def)

lemma slugChar_plain: "isSlugChar c \<Longrightarrow> \<not> isHttpWhitespace c \<and> codeUnit c \<noteq> 0"
  by (auto simp: isSlugChar_alphabet isHttpWhitespace_def codeUnit_def)

lemma toString_digits: "\<forall>c\<in>set (toString n). isDigit c"
proof (induction n rule: toString.induct)
  case (1 n)
  show ?case
  proof (cases "n < 10")
    case True
    then have "toString n = [char_of (48 + n)]" by (simp add: toString.simps)
    moreover from True have "isDigit (char_of (48 + n))"
      by (simp add: isDigit_def inRange_def codeUnit_def)
    ultimately show ?thesis by simp
  next
    case False
    then have t: "toString n = toString (n div 10) @ [char_of (48 + n mod 10)]"
      by (subst toString.simps) simp
    have "n mod 10 < 10" by simp
    then have "48 + n mod 10 < 256" by linarith
    then have "isDigit (char_of (48 + n mod 10))"
      by (simp add: isDigit_def inRange_def codeUnit_def)
    with 1 False show ?thesis by (simp add: t)
  qed
qed

lemma digit_plain: "isDigit c \<Longrightarrow> \<not> isHttpWhitespace c \<and> codeUnit c \<noteq> 0"
  by (auto simp: isDigit_def inRange_def isHttpWhitespace_def codeUnit_def)

lemma asciiLower_literal [simp]:
  "asciiLower ''host'' = ''host''"
  "asciiLower ''x-tenant-id'' = ''x-tenant-id''"
  "asciiLower ''x-tenant-slug'' = ''x-tenant-slug''"
  "asciiLower ''x-tenant-domain'' = ''x-tenant-domain''"
  "asciiLower ''x-tenant-timestamp'' = ''x-tenant-timestamp''"
  "asciiLower ''x-middleware-start'' = ''x-middleware-start''"
  by (simp_all add: asciiLower_def codeUnit_def)

lemma filter_setEntry_same:
  "map snd (filter (\<lambda>p. fst p = k) (setEntry k v hs)) = [v]"
proof (induction hs)
  case Nil
  show ?case by simp
next
  case (Cons p ps)
  have "filter (\<lambda>q. fst q = k) (filter (\<lambda>q. fst q \<noteq> k) ps) = []"
    by (induction ps) auto
  with Cons show ?case by simp
qed

lemma filter_setEntry_other:
  "k' \<noteq> k \<Longrightarrow> filter (\<lambda>p. fst p = k') (setEntry k v hs) = filter (\<lambda>p. fst p = k') hs"
proof (induction hs)
  case Nil
  then show ?case by simp
next
  case (Cons p ps)
  have "filter (\<lambda>q. fst q = k') (filter (\<lambda>q. fst q \<noteq> k) ps) = filter (\<lambda>q. fst q = k') ps"
    using Cons.prems by (induction ps) auto
  with Cons show ?case by auto
qed

lemma headersGet_setEntry_same:
  "asciiLower name = k \<Longrightarrow> headersGet (setEntry k v hs) name = Some v"
  by (simp add: headersGet_def filter_setEntry_same)

lemma headersGet_setEntry_other:
  "asciiLower name \<noteq> k \<Longrightarrow> headersGet (setEntry k v hs) name = headersGet hs name"
  by (simp add: headersGet_def filter_setEntry_other)

lemma headersSet_bytes_plain:
  assumes "byteString val = Some b" "\<forall>c\<in>set b. \<not> isHttpWhitespace c \<and> codeUnit c \<noteq> 0"
  shows "headersSet name val hs = Inr (setEntry (asciiLower name) b hs)"
  using assms normalizeHeaderValue_id [of b] isHeaderValue_plain [of b]
  by (simp add: headersSet_def)

lemma headersSet_ok:
  assumes "headerValueOk val"
  shows "\<exists>v. headersSet name val hs = Inr (setEntry (asciiLower name) v hs)"
  using assms by (auto simp: headerValueOk_def headersSet_def Let_def split: option.splits)

lemma headersSet_not_ok:
  assumes "\<not> headerValueOk val"
  shows "headersSet name val hs = Inl TypeError"
  using assms by (auto simp: headerValueOk_def headersSet_def Let_def split: option.splits)

lemma tryBlock_SomeD:
  "tryBlock out = Inr (Some t) \<Longrightarrow> slug t = [] \<or> isSlugValidText (slug t)"
  by (auto simp: tryBlock_def split: fetchOutcome.splits jsonBody.splits if_splits)

lemma resolve_SomeD:
  assumes "resolveTenantByHostname e plat h = (calls, Inr (Some t))"
  shows "slug t = [] \<or> isSlugValidText (slug t)"
proof -
  from assms obtain out where "tryBlock out = Inr (Some t)"
    by (auto simp: resolveTenantByHostname_def Let_def split: option.splits sum.splits)
  then show ?thesis by (rule tryBlock_SomeD)
qed

lemma byteString_Nil_iff: "byteString u = Some [] \<longleftrightarrow> u = []"
  by (auto simp: byteString_def)

lemma slug_text:
  assumes "slug t = [] \<or> isSlugValidText (slug t)" "byteString (slug t) = Some s"
  shows "s = [] \<or> isSlugValid s"
  using assms by (auto simp: isSlugValidText_def byteString_def)

lemma isSlugValid_chars: "isSlugValid s \<Longrightarrow> \<forall>c\<in>set s. isSlugChar c"
  by (simp add: isSlugValid_def slugRegex_def list_all_iff split: if_splits)

lemma slug_plain:
  assumes "s = [] \<or> isSlugValid s"
  shows "\<forall>c\<in>set s. \<not> isHttpWhitespace c \<and> codeUnit c \<noteq> 0"
  using assms isSlugValid_chars slugChar_plain by auto

lemma tenantHeaders_ok:
  assumes id: "headerValueOk (tenantId t)"
    and dom: "headerValueOk (tenantDomain h t)"
    and sl: "byteString (slug t) = Some s" "s = [] \<or> isSlugValid s"
  shows "\<exists>hs'. tenantHeaders clk h t hs = Inr hs' \<and> headersGet hs' ''x-tenant-slug'' = Some s"
proof -
  from headersSet_ok [OF id] obtain v1 where
    1: "headersSet ''x-tenant-id'' (tenantId t) hs = Inr (setEntry ''x-tenant-id'' v1 hs)"
    by (metis asciiLower_literal(2))
  let ?h1 = "setEntry ''x-tenant-id'' v1 hs"
  have 2: "headersSet ''x-tenant-slug'' (slug t) ?h1 = Inr (setEntry ''x-tenant-slug'' s ?h1)"
    using headersSet_bytes_plain [OF sl(1) slug_plain [OF sl(2)], of "''x-tenant-slug''" ?h1]
    by simp
  let ?h2 = "setEntry ''x-tenant-slug'' s ?h1"
  from headersSet_ok [OF dom] obtain v3 where
    3: "headersSet ''x-tenant-domain'' (tenantDomain h t) ?h2
          = Inr (setEntry ''x-tenant-domain'' v3 ?h2)"
    by (metis asciiLower_literal(4))
  let ?h3 = "setEntry ''x-tenant-domain'' v3 ?h2"
  have dig: "\<forall>c\<in>set (toString n). \<not> isHttpWhitespace c \<and> codeUnit c \<noteq> 0" for n
    using toString_digits digit_plain by blast
  have 4: "headersSet ''x-tenant-timestamp'' (codeUnits (toString (timestamp clk))) ?h3
             = Inr (setEntry ''x-tenant-timestamp'' (toString (timestamp clk)) ?h3)"
    using headersSet_plain [OF dig, of "''x-tenant-timestamp''" "timestamp clk" ?h3] by simp
  let ?h4 = "setEntry ''x-tenant-timestamp'' (toString (timestamp clk)) ?h3"
  have 5: "headersSet ''x-middleware-start'' (codeUnits (toString (startTime clk))) ?h4
             = Inr (setEntry ''x-middleware-start'' (toString (startTime clk)) ?h4)"
    using headersSet_plain [OF dig, of "''x-middleware-start''" "startTime clk" ?h4] by simp
  let ?h5 = "setEntry ''x-middleware-start'' (toString (startTime clk)) ?h4"
  have r: "tenantHeaders clk h t hs = Inr ?h5"
    by (simp add: tenantHeaders_def 1 2 3 4 5)
  have "headersGet ?h5 ''x-tenant-slug'' = headersGet ?h2 ''x-tenant-slug''"
    by (simp add: headersGet_setEntry_other)
  also have "\<dots> = Some s"
    by (simp add: headersGet_setEntry_same)
  finally show ?thesis using r by blast
qed

lemma endsWith_single: "endsWith x [c] = (x \<noteq> [] \<and> last x = c)"
  by (simp add: endsWith_def suffix_single)

lemma removeTrailingSlash_id: "x \<noteq> [] \<Longrightarrow> last x \<noteq> CHR ''/'' \<Longrightarrow> removeTrailingSlash x = x"
  by (simp add: removeTrailingSlash_def endsWith_single)

lemma formatPathname_request:
  assumes "p \<noteq> []"
  shows "formatPathname (trailingSlashFlag plat p) p = p"
proof (cases "p = ''/''")
  case True
  then show ?thesis
    by (simp add: formatPathname_def trailingSlashFlag_def removeTrailingSlash_def
        endsWith_def startsWith_def)
next
  case False
  show ?thesis
  proof (cases "endsWith p ''/''")
    case True
    with False show ?thesis
      by (simp add: formatPathname_def trailingSlashFlag_def)
  next
    case e: False
    with assms have "last p \<noteq> CHR ''/''" by (simp add: endsWith_single)
    with assms have "removeTrailingSlash p = p" by (rule removeTrailingSlash_id)
    with False e show ?thesis
      by (simp add: formatPathname_def trailingSlashFlag_def)
  qed
qed

lemma cloneFlag_request:
  "pathname url \<noteq> [] \<Longrightarrow> cloneFlag plat url = trailingSlashFlag plat (pathname url)"
  by (simp add: cloneFlag_def formatPathname_request)

lemma formatPathname_tenant:
  assumes "startsWith P ''/''"
  shows "formatPathname (trailingSlashFlag plat P) (''/s/'' @ s @ P)
           = (if P = ''/'' \<and> \<not> trailingSlashOption plat
              then removeTrailingSlash (''/s/'' @ s) else ''/s/'' @ s @ P)"
proof -
  from assms have ne: "P \<noteq> []" by (auto simp: startsWith_def)
  let ?p = "''/s/'' @ s @ P"
  have last: "last ?p = last P" using ne by simp
  show ?thesis
  proof (cases "P = ''/''")
    case True
    have b: "butlast (''/s/'' @ s @ ''/'') = ''/s/'' @ s"
      by (simp add: butlast_append)
    have "removeTrailingSlash (''/s/'' @ s @ ''/'') = ''/s/'' @ s"
      unfolding removeTrailingSlash_def endsWith_single using b by simp
    with True show ?thesis
      by (simp add: formatPathname_def trailingSlashFlag_def endsWith_single)
  next
    case False
    show ?thesis
    proof (cases "endsWith P ''/''")
      case True
      then have "endsWith ?p ''/''" using last by (simp add: endsWith_single)
      with False True show ?thesis
        by (simp add: formatPathname_def trailingSlashFlag_def)
    next
      case e: False
      with ne have "last ?p \<noteq> CHR ''/''" using last by (simp add: endsWith_single)
      then have "removeTrailingSlash ?p = ?p" by (intro removeTrailingSlash_id) simp_all
      with False e show ?thesis
        by (simp add: formatPathname_def trailingSlashFlag_def)
    qed
  qed
qed

lemma headerValueOk_host:
  assumes "normalizeAndValidateHost hh = Some h"
  shows "headerValueOk (codeUnits h)"
proof -
  from assms obtain x where "h = stripWww (hostOf (trim (toLowerCase x)))"
    by (rule normalize_SomeD)
  then have "\<forall>c\<in>set h. isHostChar c" using hostChars_normal by blast
  then have p: "\<forall>c\<in>set h. \<not> isHttpWhitespace c \<and> codeUnit c \<noteq> 0"
    using hostChar_plain by blast
  then show ?thesis
    using normalizeHeaderValue_id [of h] isHeaderValue_plain [of h]
    by (simp add: headerValueOk_def)
qed

lemma removeTrailingSlash_slug:
  assumes "s = [] \<or> isSlugValid s"
  shows "removeTrailingSlash (''/s/'' @ s) = (if s = [] then ''/s'' else ''/s/'' @ s)"
proof (cases "s = []")
  case True
  then show ?thesis by (simp add: removeTrailingSlash_def endsWith_single)
next
  case False
  with assms have "isSlugChar (last s)" using isSlugValid_chars by auto
  then have "last s \<noteq> CHR ''/''" by (auto simp: isSlugChar_alphabet)
  with False have "last (''/s/'' @ s) \<noteq> CHR ''/''" by simp
  then have "removeTrailingSlash (''/s/'' @ s) = ''/s/'' @ s"
    by (intro removeTrailingSlash_id) simp_all
  with False show ?thesis by simp
qed

text \<open>
  Claim C1, as the code has it. Let the tenant resolved for a request have the slug \<open>s\<close>,
  and an id and a custom domain that \<^verbatim>\<open>Headers.set\<close> takes (no NUL, line feed or carriage
  return inside, no code unit above 255). For a path \<open>P\<close> that does not start with
  \<^verbatim>\<open>/s/\<close>\<open>s\<close>, \<^verbatim>\<open>/api\<close> or \<^verbatim>\<open>/healthz\<close> the middleware answers with a rewrite that
  keeps the query string and carries the request header \<^verbatim>\<open>x-tenant-slug\<close> with value \<open>s\<close>.
  The path of the rewrite is \<^verbatim>\<open>/s/\<close>\<open>sP\<close>, but for the path \<^verbatim>\<open>/\<close> without the
  \<^verbatim>\<open>trailingSlash\<close> option it is \<^verbatim>\<open>/s/\<close>\<open>s\<close>: the URL of the rewrite loses its trailing
  slash when it is formatted.
\<close>

theorem tenant_path_rewritten:
  assumes "normalizeAndValidateHost (headersGet (headers req) ''host'') = Some h"
    and "h \<noteq> []" and "h \<noteq> ROOT_DOMAIN e"
    and "resolveTenantByHostname e plat h = (calls, Inr (Some t))"
    and "byteString (slug t) = Some s"
    and "headerValueOk (tenantId t)"
    and "\<And>d. customDomain t = Some d \<Longrightarrow> headerValueOk d"
    and "P = pathname (nextUrl req)" and "startsWith P ''/''"
    and "\<not> startsWith P (''/s/'' @ s)"
    and "\<not> startsWith P ''/api''"
    and "\<not> startsWith P ''/healthz''"
  shows "\<exists>url hs. middleware e plat clk req = (calls, Inr (Rewrite url hs))
           \<and> pathname url
               = (if P = ''/'' \<and> \<not> trailingSlashOption plat
                  then (if s = [] then ''/s'' else ''/s/'' @ s)
                  else ''/s/'' @ s @ P)
           \<and> search url = search (nextUrl req)
           \<and> headersGet hs ''x-tenant-slug'' = Some s"
proof -
  have sl: "s = [] \<or> isSlugValid s"
    using resolve_SomeD [OF assms(4)] assms(5) by (rule slug_text)
  have dom: "headerValueOk (tenantDomain h t)"
  proof (cases "customDomain t")
    case None
    then show ?thesis
      using headerValueOk_host [OF assms(1)] by (simp add: tenantDomain_def)
  next
    case (Some d)
    with assms(7) show ?thesis by (simp add: tenantDomain_def)
  qed
  from tenantHeaders_ok [OF assms(6) dom assms(5) sl] obtain hs where
    hs: "tenantHeaders clk h t (headers req) = Inr hs"
    and g: "headersGet hs ''x-tenant-slug'' = Some s"
    by blast
  from assms(8,9) have ne: "pathname (nextUrl req) \<noteq> []" by (auto simp: startsWith_def)
  let ?url = "href (cloneFlag plat (nextUrl req))
                ((nextUrl req)\<lparr>pathname := ''/s/'' @ s @ P, search := search (nextUrl req)\<rparr>)"
  have m: "middleware e plat clk req = (calls, Inr (Rewrite ?url hs))"
    using assms(1-5,8,10-12) hs by (simp add: middleware_def)
  have "pathname ?url = formatPathname (trailingSlashFlag plat P) (''/s/'' @ s @ P)"
    using cloneFlag_request [OF ne] assms(8) by (simp add: href_def)
  also have "\<dots> = (if P = ''/'' \<and> \<not> trailingSlashOption plat
                      then removeTrailingSlash (''/s/'' @ s) else ''/s/'' @ s @ P)"
    using assms(9) by (rule formatPathname_tenant)
  finally have p: "pathname ?url
               = (if P = ''/'' \<and> \<not> trailingSlashOption plat
                  then (if s = [] then ''/s'' else ''/s/'' @ s)
                  else ''/s/'' @ s @ P)"
    using removeTrailingSlash_slug [OF sl] by simp
  have q: "search ?url = search (nextUrl req)" by (simp add: href_def)
  from m p q g show ?thesis by blast
qed

theorem tenant_path_rewritten_witness:
  "normalizeAndValidateHost
     (headersGet (headers (exampleRequest ''acme.example.com'' ''/dashboard'')) ''host'')
     = Some ''acme.example.com''
   \<and> snd (resolveTenantByHostname exampleEnv (examplePlatform (Responds 200 (Json acme)))
            ''acme.example.com'') = Inr (Some acme)
   \<and> byteString (slug acme) = Some ''acme''
   \<and> headerValueOk (tenantId acme)
   \<and> customDomain acme = None
   \<and> (\<exists>url hs.
         snd (middleware exampleEnv (examplePlatform (Responds 200 (Json acme))) exampleClock
                (exampleRequest ''acme.example.com'' ''/dashboard''))
           = Inr (Rewrite url hs)
         \<and> pathname url = ''/s/acme/dashboard''
         \<and> search url = ''?tab=1''
         \<and> headersGet hs ''x-tenant-slug'' = Some ''acme'')"
proof -
  let ?req = "exampleRequest ''acme.example.com'' ''/dashboard''"
  let ?plat = "examplePlatform (Responds 200 (Json acme))"
  let ?r = "resolveTenantByHostname exampleEnv ?plat ''acme.example.com''"
  have n: "normalizeAndValidateHost (headersGet (headers ?req) ''host'') = Some ''acme.example.com''"
    by code_simp
  have ne: "''acme.example.com'' \<noteq> []" by simp
  have root: "''acme.example.com'' \<noteq> ROOT_DOMAIN exampleEnv"
    by code_simp
  have r: "snd ?r = Inr (Some acme)"
    by code_simp
  then have r': "?r = (fst ?r, Inr (Some acme))" by (simp add: prod_eq_iff)
  have s: "byteString (slug acme) = Some ''acme''"
    by code_simp
  have i: "headerValueOk (tenantId acme)"
    by code_simp
  have c: "customDomain acme = None" by (simp add: acme_def)
  then have d: "\<And>d. customDomain acme = Some d \<Longrightarrow> headerValueOk d" by simp
  have p: "''/dashboard'' = pathname (nextUrl ?req)" "search (nextUrl ?req) = ''?tab=1''"
    by (simp_all add: exampleRequest_def)
  have w: "startsWith ''/dashboard'' ''/''" "\<not> startsWith ''/dashboard'' (''/s/'' @ ''acme'')"
    "\<not> startsWith ''/dashboard'' ''/api''" "\<not> startsWith ''/dashboard'' ''/healthz''"
    by (simp_all add: startsWith_def)
  from tenant_path_rewritten [OF n ne root r' s i d p(1) w, of exampleClock] n r s i c p(2)
  show ?thesis by auto
qed

theorem tenant_path_counterexample:
  "snd (resolveTenantByHostname exampleEnv (examplePlatform (Responds 200 (Json lineFeedTenant)))
          ''acme.example.com'') = Inr (Some lineFeedTenant)
   \<and> snd (middleware exampleEnv (examplePlatform (Responds 200 (Json lineFeedTenant)))
            exampleClock (exampleRequest ''acme.example.com'' ''/dashboard'')) = Inl TypeError
   \<and> snd (resolveTenantByHostname exampleEnv (examplePlatform (Responds 200 (Json acme)))
          ''acme.example.com'') = Inr (Some acme)
   \<and> snd (middleware exampleEnv (examplePlatform (Responds 200 (Json acme))) exampleClock
            (exampleRequest ''acme.example.com'' ''/''))
       = Inr (Rewrite
               \<lparr>urlOrigin = ''https://acme.example.com'', pathname = ''/s/acme'',
                  search = ''?tab=1''\<rparr>
               [(''host'', ''acme.example.com''), (''x-tenant-id'', ''org_1''),
                (''x-tenant-slug'', ''acme''), (''x-tenant-domain'', ''acme.example.com''),
                (''x-tenant-timestamp'', ''1700000000002''),
                (''x-middleware-start'', ''1700000000000'')])"
proof -
  let ?lf = "examplePlatform (Responds 200 (Json lineFeedTenant))"
  let ?ok = "examplePlatform (Responds 200 (Json acme))"
  let ?req = "exampleRequest ''acme.example.com'' ''/dashboard''"
  let ?root = "exampleRequest ''acme.example.com'' ''/''"
  have n: "normalizeAndValidateHost (headersGet (headers ?req) ''host'') = Some ''acme.example.com''"
    "normalizeAndValidateHost (headersGet (headers ?root) ''host'') = Some ''acme.example.com''"
    by code_simp+
  have root: "''acme.example.com'' \<noteq> ROOT_DOMAIN exampleEnv"
    by code_simp
  have r1: "snd (resolveTenantByHostname exampleEnv ?lf ''acme.example.com'')
              = Inr (Some lineFeedTenant)"
    by code_simp
  have h1: "headersSet ''x-tenant-id'' (tenantId lineFeedTenant) (headers ?req) = Inl TypeError"
    by code_simp
  have m1: "snd (middleware exampleEnv ?lf exampleClock ?req) = Inl TypeError"
    using r1 by (simp add: middleware_def n root case_prod_beta tenantHeaders_def h1)
  have r2: "snd (resolveTenantByHostname exampleEnv ?ok ''acme.example.com'') = Inr (Some acme)"
    by code_simp
  have ts: "toString (timestamp exampleClock) = ''1700000000002''"
    "toString (startTime exampleClock) = ''1700000000000''"
    by (simp_all add: exampleClock_def toString.simps char_of_eq_iff take_bit_eq_mod)
  have h2: "tenantHeaders exampleClock ''acme.example.com'' acme (headers ?root)
      = Inr [(''host'', ''acme.example.com''), (''x-tenant-id'', ''org_1''),
             (''x-tenant-slug'', ''acme''), (''x-tenant-domain'', ''acme.example.com''),
             (''x-tenant-timestamp'', ''1700000000002''),
             (''x-middleware-start'', ''1700000000000'')]"
    unfolding tenantHeaders_def ts by code_simp
  have b: "byteString (slug acme) = Some ''acme''"
    by code_simp
  have p: "pathname (nextUrl ?root) = ''/''"
    by (simp add: exampleRequest_def)
  have u: "href (cloneFlag ?ok (nextUrl ?root))
             ((nextUrl ?root)\<lparr>pathname := ''/s/'' @ ''acme'' @ ''/'',
                               search := search (nextUrl ?root)\<rparr>)
           = \<lparr>urlOrigin = ''https://acme.example.com'', pathname = ''/s/acme'',
               search = ''?tab=1''\<rparr>"
    by code_simp
  have w: "\<not> startsWith ''/'' (''/s/'' @ ''acme'')" "\<not> startsWith ''/'' ''/api''"
    "\<not> startsWith ''/'' ''/healthz''"
    by (simp_all add: startsWith_def)
  have m2: "snd (middleware exampleEnv ?ok exampleClock ?root)
       = Inr (Rewrite
               \<lparr>urlOrigin = ''https://acme.example.com'', pathname = ''/s/acme'',
                  search = ''?tab=1''\<rparr>
               [(''host'', ''acme.example.com''), (''x-tenant-id'', ''org_1''),
                (''x-tenant-slug'', ''acme''), (''x-tenant-domain'', ''acme.example.com''),
                (''x-tenant-timestamp'', ''1700000000002''),
                (''x-middleware-start'', ''1700000000000'')])"
    using r2 u w by (simp add: middleware_def n root case_prod_beta h2 b p)
  from r1 m1 r2 m2 show ?thesis by blast
qed

subsection \<open>Variants of the root domain\<close>

text \<open>
  A root domain that the host validator returns unchanged (no \<^verbatim>\<open>www.\<close> in front, no
  trailing dot) is what each of its accepted variants is normalized to.
\<close>

lemma hostChar_not_white: "isHostChar c \<Longrightarrow> \<not> isWhiteSpace c"
  by (auto simp: isHostChar_alphabet isWhiteSpace_def codeUnit_def)

lemma trim_id:
  assumes "s \<noteq> []" "\<not> isWhiteSpace (hd s)" "\<not> isWhiteSpace (last s)"
  shows "trim s = s"
  using assms by (simp add: trim_def trimStart_id trimEnd_id)

lemma length_stripWww: "length (stripWww x) \<le> length x"
  by (simp add: stripWww_def)

lemma normal_rootD:
  assumes "normalizeAndValidateHost (Some r) = Some r" "r \<noteq> []"
  shows "\<forall>c\<in>set r. isHostChar c" "\<not> suffix ''.'' r" "\<not> prefix ''www.'' r"
proof -
  from assms(1) obtain h where acc: "accepted (trim (toLowerCase h))"
    and r: "r = stripWww (hostOf (trim (toLowerCase h)))"
    by (rule normalize_SomeD)
  show hc: "\<forall>c\<in>set r. isHostChar c"
    unfolding r using hostChars_normal by blast
  then have low: "toLowerCase r = r" by (rule toLowerCase_hostChars)
  from hc assms(2) have "\<not> isWhiteSpace (hd r)" "\<not> isWhiteSpace (last r)"
    using hostChar_not_white by simp_all
  with assms(2) have tr: "trim r = r" by (intro trim_id)
  from hc have tw: "takeWhile isHostChar r = r" by (simp add: takeWhile_eq_all_conv)
  from assms have eq: "stripWww (removeTrailingDot r) = r"
    by (simp add: normalize_eq low tr hostOf_def tw split: if_splits)
  have le: "length r \<le> length (removeTrailingDot r)"
    using length_stripWww [of "removeTrailingDot r"] unfolding eq .
  show nd: "\<not> suffix ''.'' r"
  proof
    assume "suffix ''.'' r"
    then have "length (removeTrailingDot r) = length r - 1"
      by (simp add: removeTrailingDot_def endsWith_def)
    moreover have "length r - 1 < length r" using assms(2) by (cases r) simp_all
    ultimately show False using le by linarith
  qed
  then have "removeTrailingDot r = r" by (simp add: removeTrailingDot_def endsWith_def)
  with eq have "stripWww r = r" by simp
  show "\<not> prefix ''www.'' r"
  proof
    assume "prefix ''www.'' r"
    with \<open>stripWww r = r\<close> have "drop 4 r = r" by (simp add: stripWww_def)
    then have "length r - 4 = length r" by (metis length_drop)
    moreover have "0 < length r" using assms(2) by simp
    ultimately show False by linarith
  qed
qed

lemma trim_host_port:
  assumes "X \<noteq> []" "\<forall>c\<in>set X. isHostChar c" "p = [] \<or> hd p = CHR '':''"
  shows "\<exists>y. trim (X @ p) = X @ y \<and> (y = [] \<or> hd y = CHR '':'')"
proof -
  from assms(1,2) have hx: "\<not> isWhiteSpace (hd X)" and lx: "\<not> isWhiteSpace (last X)"
    using hostChar_not_white by simp_all
  from assms(1) hx have ts: "trimStart (X @ p) = X @ p"
    by (intro trimStart_id) simp_all
  show ?thesis
  proof (cases "p = []")
    case True
    with assms(1) hx lx have "trim (X @ p) = X @ []" by (simp add: trim_id)
    then show ?thesis by blast
  next
    case False
    with assms(3) have hp: "hd p = CHR '':''" by simp
    then have nw: "\<not> isWhiteSpace (hd p)" by (simp add: isWhiteSpace_def codeUnit_def)
    have "trim (X @ p) = X @ trimEnd p"
      using trimEnd_append [OF False nw] ts by (simp add: trim_def)
    moreover have "hd (trimEnd p) = CHR '':''"
      using trimEnd_Nil_iff(2) [OF False nw] hp by simp
    ultimately show ?thesis by blast
  qed
qed

lemma hostOf_host_port:
  assumes "\<forall>c\<in>set X. isHostChar c" "y = [] \<or> hd y = CHR '':''"
  shows "hostOf (X @ y) = removeTrailingDot X"
proof -
  have "takeWhile isHostChar y = []"
    using assms(2) by (cases y) (auto simp: isHostChar_alphabet)
  with assms(1) have "takeWhile isHostChar (X @ y) = X"
    by (simp add: takeWhile_append2 del: takeWhile_append)
  then show ?thesis by (simp add: hostOf_def)
qed

lemma removeTrailingDot_root:
  assumes "r \<noteq> []" "\<not> suffix ''.'' r" "dot = [] \<or> dot = ''.''"
  shows "removeTrailingDot (w @ r @ dot) = w @ r"
  using assms(3)
proof
  assume "dot = []"
  with assms(1,2) show ?thesis
    by (simp add: removeTrailingDot_def endsWith_def suffix_single)
next
  assume "dot = ''.''"
  then have "w @ r @ dot = (w @ r) @ ''.''" by simp
  then show ?thesis
    by (simp only: removeTrailingDot_def endsWith_def suffix_single butlast_snoc last_snoc
        snoc_eq_iff_butlast simp_thms if_True)
qed

lemma stripWww_root:
  assumes "\<not> prefix ''www.'' r" "w = [] \<or> w = ''www.''"
  shows "stripWww (w @ r) = r"
  using assms by (auto simp: stripWww_def)

lemma toLowerCase_Nil_iff [simp]: "toLowerCase s = [] \<longleftrightarrow> s = []"
  by (simp add: toLowerCase_def)

lemma variant_normalizes_to_root:
  assumes root: "normalizeAndValidateHost (Some r) = Some r" "r \<noteq> []"
    and W: "toLowerCase W = [] \<or> toLowerCase W = ''www.''"
    and R: "toLowerCase R = r"
    and dot: "dot = [] \<or> dot = ''.''"
    and port: "port = [] \<or> hd port = CHR '':''"
    and acc: "normalizeAndValidateHost (Some (W @ R @ dot @ port)) \<noteq> None"
  shows "normalizeAndValidateHost (Some (W @ R @ dot @ port)) = Some r"
proof -
  note rt = normal_rootD [OF root]
  let ?w = "toLowerCase W"
  let ?X = "?w @ r @ dot"
  let ?p = "toLowerCase port"
  have ld: "toLowerCase dot = dot"
    using dot by (auto simp: toLowerCase_def lowerChar_def codeUnit_def)
  have L: "toLowerCase (W @ R @ dot @ port) = ?X @ ?p"
    by (simp add: R ld)
  have w: "\<forall>c\<in>set ?w. isHostChar c"
    using W hostChars_www by (auto simp: toLowerCase_def)
  have d: "\<forall>c\<in>set dot. isHostChar c"
    using dot by (auto simp: isHostChar_def)
  have X: "?X \<noteq> []" "\<forall>c\<in>set ?X. isHostChar c"
    using root(2) rt(1) w d by auto
  have p: "?p = [] \<or> hd ?p = CHR '':''"
    using port by (cases port) (auto simp: toLowerCase_def lowerChar_def codeUnit_def)
  from trim_host_port [OF X p] obtain y where
    y: "trim (?X @ ?p) = ?X @ y" "y = [] \<or> hd y = CHR '':''"
    by blast
  have "hostOf (?X @ y) = removeTrailingDot ?X"
    using X(2) y(2) by (rule hostOf_host_port)
  also have "\<dots> = ?w @ r"
    using root(2) rt(2) dot by (rule removeTrailingDot_root)
  finally have "stripWww (hostOf (?X @ y)) = r"
    using stripWww_root [OF rt(3) W] by simp
  with acc show ?thesis
    unfolding normalize_eq L y(1) by (simp split: if_splits)
qed

text \<open>
  Claim C10, at a root domain with a \<^verbatim>\<open>www\<close> label. The host header is normalized, the
  root domain is not: a leading \<^verbatim>\<open>www.\<close> is taken off the one and left on the other.
  With the base URL \<^verbatim>\<open>https://www.example.com\<close> the root domain is
  \<^verbatim>\<open>www.example.com\<close>. The host header \<^verbatim>\<open>www.example.com\<close> and its trailing-dot,
  ported and differently-cased variants are all normalized to \<^verbatim>\<open>example.com\<close>: the
  request is not passed through, a lookup for \<^verbatim>\<open>example.com\<close> is sent, and when it
  finds no tenant the answer is 404.
\<close>

theorem www_root_variants_looked_up:
  "ROOT_DOMAIN wwwEnv = ''www.example.com''
   \<and> map (searchParams \<circ> callUrl)
         (fst (middleware wwwEnv (examplePlatform (Responds 404 NotJson)) exampleClock
                 (exampleRequest ''www.example.com'' ''/pricing'')))
       = [[(''hostname'', ''example.com'')]]
   \<and> snd (middleware wwwEnv (examplePlatform (Responds 404 NotJson)) exampleClock
            (exampleRequest ''www.example.com'' ''/pricing'')) = Inr (Plain ''Not Found'' 404)
   \<and> map (searchParams \<circ> callUrl)
         (fst (middleware wwwEnv (examplePlatform (Responds 404 NotJson)) exampleClock
                 (exampleRequest ''www.example.com.'' ''/pricing'')))
       = [[(''hostname'', ''example.com'')]]
   \<and> snd (middleware wwwEnv (examplePlatform (Responds 404 NotJson)) exampleClock
            (exampleRequest ''www.example.com.'' ''/pricing'')) = Inr (Plain ''Not Found'' 404)
   \<and> map (searchParams \<circ> callUrl)
         (fst (middleware wwwEnv (examplePlatform (Responds 404 NotJson)) exampleClock
                 (exampleRequest ''www.example.com:443'' ''/pricing'')))
       = [[(''hostname'', ''example.com'')]]
   \<and> snd (middleware wwwEnv (examplePlatform (Responds 404 NotJson)) exampleClock
            (exampleRequest ''www.example.com:443'' ''/pricing'')) = Inr (Plain ''Not Found'' 404)
   \<and> map (searchParams \<circ> callUrl)
         (fst (middleware wwwEnv (examplePlatform (Responds 404 NotJson)) exampleClock
                 (exampleRequest ''WWW.Example.COM'' ''/pricing'')))
       = [[(''hostname'', ''example.com'')]]
   \<and> snd (middleware wwwEnv (examplePlatform (Responds 404 NotJson)) exampleClock
            (exampleRequest ''WWW.Example.COM'' ''/pricing'')) = Inr (Plain ''Not Found'' 404)"
proof -
  let ?plat = "examplePlatform (Responds 404 NotJson)"
  have d: "ROOT_DOMAIN wwwEnv = ''www.example.com''"
    by code_simp
  have n: "normalizeAndValidateHost
             (headersGet (headers (exampleRequest ''www.example.com'' ''/pricing'')) ''host'')
           = Some ''example.com''"
    "normalizeAndValidateHost
             (headersGet (headers (exampleRequest ''www.example.com.'' ''/pricing'')) ''host'')
           = Some ''example.com''"
    "normalizeAndValidateHost
             (headersGet (headers (exampleRequest ''www.example.com:443'' ''/pricing'')) ''host'')
           = Some ''example.com''"
    "normalizeAndValidateHost
             (headersGet (headers (exampleRequest ''WWW.Example.COM'' ''/pricing'')) ''host'')
           = Some ''example.com''"
    by code_simp+
  have r: "map (searchParams \<circ> callUrl)
             (fst (resolveTenantByHostname wwwEnv ?plat ''example.com''))
           = [[(''hostname'', ''example.com'')]]"
    "snd (resolveTenantByHostname wwwEnv ?plat ''example.com'') = Inr None"
    by code_simp+
  have m: "map (searchParams \<circ> callUrl) (fst (middleware wwwEnv ?plat exampleClock req))
             = [[(''hostname'', ''example.com'')]]
        \<and> snd (middleware wwwEnv ?plat exampleClock req) = Inr (Plain ''Not Found'' 404)"
    if "normalizeAndValidateHost (headersGet (headers req) ''host'') = Some ''example.com''"
    for req
    using r that by (simp add: middleware_def d case_prod_beta)
  from d n m show ?thesis by simp
qed

end
